theory Spec2Isabelle
  imports Complex_Main
begin

section \<open>Text primitives\<close>

text \<open>
  OCR text is a Python \<open>str\<close>. It is modelled as a \<open>string\<close>, one \<open>char\<close> per code
  point, which covers the code points 0 to 255 (Latin-1). The character classes below are
  those of Python 3 on that range: \<open>str.isspace\<close> for \<open>\s\<close> and \<open>strip()\<close>, the
  decimal digits for \<open>\d\<close>, \<open>str.isalnum\<close> or underscore for \<open>\w\<close>.
\<close>

definition code :: "char \<Rightarrow> nat" where
  "code c = of_char c"

definition is_space :: "char \<Rightarrow> bool" where
  "is_space c = (let n = code c in
     (9 \<le> n \<and> n \<le> 13) \<or> (28 \<le> n \<and> n \<le> 32) \<or> n = 133 \<or> n = 160)"

definition is_digit :: "char \<Rightarrow> bool" where
  "is_digit c = (let n = code c in 48 \<le> n \<and> n \<le> 57)"

definition is_word :: "char \<Rightarrow> bool" where
  "is_word c = (let n = code c in
     (48 \<le> n \<and> n \<le> 57) \<or> (65 \<le> n \<and> n \<le> 90) \<or> n = 95 \<or> (97 \<le> n \<and> n \<le> 122) \<or>
     n = 170 \<or> n = 178 \<or> n = 179 \<or> n = 181 \<or> n = 185 \<or> n = 186 \<or>
     (188 \<le> n \<and> n \<le> 190) \<or> (192 \<le> n \<and> n \<le> 214) \<or> (216 \<le> n \<and> n \<le> 246) \<or>
     (248 \<le> n \<and> n \<le> 255))"

text \<open>
  Case folding for \<open>re.IGNORECASE\<close>. Every pattern letter of the source is an ASCII
  letter, and on the modelled range an ASCII letter is matched by its two ASCII cases only.
\<close>

definition lower :: "char \<Rightarrow> char" where
  "lower c = (let n = code c in if 65 \<le> n \<and> n \<le> 90 then char_of (n + 32) else c)"

text \<open>\<open>s.startswith(p)\<close> and \<open>sub in s\<close>.\<close>

fun startswith :: "string \<Rightarrow> string \<Rightarrow> bool" where
  "startswith s [] = True"
| "startswith [] (p # ps) = False"
| "startswith (c # cs) (p # ps) = (c = p \<and> startswith cs ps)"

fun contains :: "string \<Rightarrow> string \<Rightarrow> bool" where
  "contains sub [] = (sub = [])"
| "contains sub (c # cs) = (startswith (c # cs) sub \<or> contains sub cs)"

text \<open>\<open>line.strip()\<close>: leading and trailing whitespace removed.\<close>

definition strip :: "string \<Rightarrow> string" where
  "strip s = rev (dropWhile is_space (rev (dropWhile is_space s)))"

text \<open>\<open>text.split("\n")\<close>: one piece more than there are newlines.\<close>

fun split_nl :: "string \<Rightarrow> string list" where
  "split_nl [] = [[]]"
| "split_nl (c # cs) =
     (if c = CHR 0x0A then [] # split_nl cs
      else (case split_nl cs of [] \<Rightarrow> [[c]] | l # ls \<Rightarrow> (c # l) # ls))"

text \<open>\<open>sep.join(parts)\<close>.\<close>

fun join :: "string \<Rightarrow> string list \<Rightarrow> string" where
  "join sep [] = []"
| "join sep [x] = x"
| "join sep (x # y # ys) = x @ sep @ join sep (y # ys)"

section \<open>Regular expressions\<close>

text \<open>
  The fragment of Python's \<open>re\<close> that the source's patterns use: literal characters,
  the classes \<open>\d\<close>, \<open>\s\<close>, \<open>\w\<close> and \<open>[a-b]\<close>, the word boundary \<open>\b\<close>,
  concatenation, ordered alternation, greedy bounded or unbounded repetition of a single
  character class, and capture groups.
\<close>

datatype atom = Lit char | Digit | Space | Word | Range char char

datatype rx =
    Eps
  | Atom atom
  | Bnd
  | Seq rx rx
  | Alt rx rx
  | Rep atom nat "nat option"
  | Grp rx

fun atom_ok :: "bool \<Rightarrow> atom \<Rightarrow> char \<Rightarrow> bool" where
  "atom_ok ic (Lit l) c = (if ic then lower c = lower l else c = l)"
| "atom_ok ic Digit c = is_digit c"
| "atom_ok ic Space c = is_space c"
| "atom_ok ic Word c = is_word c"
| "atom_ok ic (Range lo hi) c = (code lo \<le> code c \<and> code c \<le> code hi)"

text \<open>\<open>\b\<close> holds where exactly one of the two neighbours is a word character.\<close>

definition word_before :: "char option \<Rightarrow> bool" where
  "word_before p = (case p of None \<Rightarrow> False | Some c \<Rightarrow> is_word c)"

definition word_after :: "string \<Rightarrow> bool" where
  "word_after s = (case s of [] \<Rightarrow> False | c # _ \<Rightarrow> is_word c)"

definition prev_after :: "char option \<Rightarrow> string \<Rightarrow> char option" where
  "prev_after p m = (if m = [] then p else Some (last m))"

text \<open>
  A backtracking matcher. \<open>rmatch ic r p s\<close> lists, in the order in which Python's engine
  tries them, the ways \<open>r\<close> matches a prefix of \<open>s\<close> when \<open>p\<close> is the character before
  \<open>s\<close>: the matched prefix, the texts of the capture groups, and the rest of the input.
  \<open>ic\<close> is the \<open>re.IGNORECASE\<close> flag.
\<close>

fun rmatch :: "bool \<Rightarrow> rx \<Rightarrow> char option \<Rightarrow> string \<Rightarrow> (string \<times> string list \<times> string) list" where
  "rmatch ic Eps p s = [([], [], s)]"
| "rmatch ic (Atom a) p s =
     (case s of [] \<Rightarrow> [] | c # cs \<Rightarrow> if atom_ok ic a c then [([c], [], cs)] else [])"
| "rmatch ic Bnd p s = (if word_before p \<noteq> word_after s then [([], [], s)] else [])"
| "rmatch ic (Seq r1 r2) p s =
     concat (map (\<lambda>x. map (\<lambda>y. (fst x @ fst y, fst (snd x) @ fst (snd y), snd (snd y)))
                           (rmatch ic r2 (prev_after p (fst x)) (snd (snd x))))
                 (rmatch ic r1 p s))"
| "rmatch ic (Alt r1 r2) p s = rmatch ic r1 p s @ rmatch ic r2 p s"
| "rmatch ic (Rep a lo hi) p s =
     (let n = length (takeWhile (atom_ok ic a) s);
          m = (case hi of None \<Rightarrow> n | Some h \<Rightarrow> min n h)
      in map (\<lambda>k. (take k s, [], drop k s)) (rev [lo ..< Suc m]))"
| "rmatch ic (Grp r) p s = map (\<lambda>x. (fst x, fst x # fst (snd x), snd (snd x))) (rmatch ic r p s)"

text \<open>\<open>re.search\<close>: the first match at the leftmost position that has one.\<close>

fun re_search :: "bool \<Rightarrow> rx \<Rightarrow> char option \<Rightarrow> string \<Rightarrow> (string \<times> string list \<times> string) option" where
  "re_search ic r p [] = (case rmatch ic r p [] of [] \<Rightarrow> None | x # _ \<Rightarrow> Some x)"
| "re_search ic r p (c # cs) =
     (case rmatch ic r p (c # cs) of [] \<Rightarrow> re_search ic r (Some c) cs | x # _ \<Rightarrow> Some x)"

definition matches :: "bool \<Rightarrow> rx \<Rightarrow> string \<Rightarrow> bool" where
  "matches ic r text = (re_search ic r None text \<noteq> None)"

text \<open>
  \<open>re.findall\<close> for a pattern with groups: the group texts of the successive
  non-overlapping matches, left to right. After an empty match the scan moves on by one
  character.
\<close>

function re_findall :: "bool \<Rightarrow> rx \<Rightarrow> char option \<Rightarrow> string \<Rightarrow> string list list" where
  "re_findall ic r p s =
     (case rmatch ic r p s of
        [] \<Rightarrow> (case s of [] \<Rightarrow> [] | c # cs \<Rightarrow> re_findall ic r (Some c) cs)
      | x # _ \<Rightarrow>
          (if length (snd (snd x)) < length s
           then fst (snd x) # re_findall ic r (prev_after p (fst x)) (snd (snd x))
           else fst (snd x) # (case s of [] \<Rightarrow> [] | c # cs \<Rightarrow> re_findall ic r (Some c) cs)))"
  by pat_completeness auto
termination
  by (relation "measure (\<lambda>(ic, r, p, s). length s)") auto

definition Str :: "string \<Rightarrow> rx" where
  "Str w = foldr (\<lambda>c r. Seq (Atom (Lit c)) r) w Eps"

definition Cat :: "rx list \<Rightarrow> rx" where
  "Cat rs = foldr Seq rs Eps"

definition Alts :: "rx list \<Rightarrow> rx" where
  "Alts rs = foldr Alt (butlast rs) (last rs)"

section \<open>OCRProcessor.analyze_text\<close>

record analysis =
  likely_correspondence :: bool
  mentions_churchill :: bool
  mentions_fairfax :: bool
  date_found :: "string option"
  relevance_score :: int

definition churchill_patterns :: "rx list" where
  "churchill_patterns =
     [Cat [Bnd, Str ''churchill'', Bnd],
      Cat [Bnd, Str ''winston'', Bnd],
      Cat [Bnd, Str ''prime'', Rep Space 1 None, Str ''minister'', Bnd]]"

definition fairfax_patterns :: "rx list" where
  "fairfax_patterns =
     [Cat [Bnd, Str ''fairfax'', Bnd],
      Cat [Bnd, Str ''bryan'', Bnd],
      Cat [Bnd, Str ''colonel'', Bnd]]"

definition month_names :: "string list" where
  "month_names =
     [''January'', ''February'', ''March'', ''April'', ''May'', ''June'', ''July'',
      ''August'', ''September'', ''October'', ''November'', ''December'']"

definition date_pattern :: rx where
  "date_pattern =
     Cat [Grp (Rep Digit 1 (Some 2)), Rep Space 1 None,
          Grp (Alts (map Str month_names)), Rep Space 1 None,
          Grp (Cat [Str ''19'', Rep (Range CHR ''0'' CHR ''9'') 2 (Some 2)])]"

definition month_mapping :: "(string \<times> int) list" where
  "month_mapping =
     [(''January'', 1), (''February'', 2), (''March'', 3), (''April'', 4),
      (''May'', 5), (''June'', 6), (''July'', 7), (''August'', 8),
      (''September'', 9), (''October'', 10), (''November'', 11), (''December'', 12)]"

text \<open>\<open>month_mapping.get(month, 0)\<close>.\<close>

definition month_get :: "string \<Rightarrow> int" where
  "month_get m = (case map_of month_mapping m of None \<Rightarrow> 0 | Some k \<Rightarrow> k)"

text \<open>
  \<open>int(year)\<close> on a string of decimal digits; \<open>None\<close> stands for the \<open>ValueError\<close> that
  any other string is taken to raise.
\<close>

definition digit_val :: "char \<Rightarrow> int" where
  "digit_val c = int (code c) - 48"

definition py_int :: "string \<Rightarrow> int option" where
  "py_int s = (if s \<noteq> [] \<and> list_all is_digit s
               then Some (foldl (\<lambda>acc c. 10 * acc + digit_val c) 0 s) else None)"

text \<open>
  The two \<open>for pattern in ...: if re.search(...): ...; break\<close> loops: the first pattern
  that matches ends the loop.
\<close>

fun any_pattern :: "rx list \<Rightarrow> string \<Rightarrow> bool" where
  "any_pattern [] text = False"
| "any_pattern (pat # pats) text = (if matches True pat text then True else any_pattern pats text)"

text \<open>
  The body of the \<open>try\<close> block on the first element of \<open>date_matches\<close>. Unpacking
  anything but three group texts and a year that \<open>int\<close> rejects both raise inside the
  block; the \<open>except\<close> clause logs and goes on with the analysis as it stands at the raise.
\<close>

definition parse_date :: "string list \<Rightarrow> analysis \<Rightarrow> analysis" where
  "parse_date m a =
     (case m of
        [day, month, year] \<Rightarrow>
          (let a1 = a\<lparr>date_found := Some (day @ '' '' @ month @ '' '' @ year)\<rparr>
           in (case py_int year of
                 None \<Rightarrow> a1
               | Some y \<Rightarrow>
                   if y = 1946 \<and> month_get month \<ge> 10
                   then a1\<lparr>relevance_score := relevance_score a1 + 30\<rparr>
                   else a1))
      | _ \<Rightarrow> a)"

definition analysis_init :: analysis where
  "analysis_init =
     \<lparr>likely_correspondence = False, mentions_churchill = False, mentions_fairfax = False,
      date_found = None, relevance_score = 0\<rparr>"

definition check_churchill :: "string \<Rightarrow> analysis \<Rightarrow> analysis" where
  "check_churchill text a =
     (if any_pattern churchill_patterns text
      then a\<lparr>mentions_churchill := True, relevance_score := relevance_score a + 10\<rparr> else a)"

definition check_fairfax :: "string \<Rightarrow> analysis \<Rightarrow> analysis" where
  "check_fairfax text a =
     (if any_pattern fairfax_patterns text
      then a\<lparr>mentions_fairfax := True, relevance_score := relevance_score a + 10\<rparr> else a)"

definition date_matches :: "string \<Rightarrow> string list list" where
  "date_matches text = re_findall False date_pattern None text"

definition check_date :: "string \<Rightarrow> analysis \<Rightarrow> analysis" where
  "check_date text a = (case date_matches text of [] \<Rightarrow> a | m # _ \<Rightarrow> parse_date m a)"

definition verdict :: "analysis \<Rightarrow> analysis" where
  "verdict a =
     (if mentions_churchill a \<and> mentions_fairfax a \<and> relevance_score a \<ge> 20
      then a\<lparr>likely_correspondence := True\<rparr> else a)"

definition analyze_text :: "string \<Rightarrow> analysis" where
  "analyze_text text = verdict (check_date text (check_fairfax text (check_churchill text analysis_init)))"

section \<open>Values, exceptions and the outside world\<close>

text \<open>
  What \<open>response.json()\<close> returns: any JSON value. The fields of the items of a reply
  are such values; nothing in the source checks their types.
\<close>

datatype json =
    JNull
  | JBool bool
  | JNum rat
  | JStr string
  | JArr "json list"
  | JObj "(string \<times> json) list"

text \<open>
  The exceptions that the source can meet and does not always catch. A
  \<open>requests.RequestException\<close> is not among them: it is an answer of the network, see
  \<open>env\<close> below.
\<close>

datatype exn = KeyError string | TypeError | AttributeError | FileNotFoundError | OSError string

text \<open>\<open>s in v\<close> for a string \<open>s\<close>: substring, element or key, and a \<open>TypeError\<close> otherwise.\<close>

fun py_in :: "string \<Rightarrow> json \<Rightarrow> exn + bool" where
  "py_in s (JStr t) = Inr (contains s t)"
| "py_in s (JArr xs) = Inr (JStr s \<in> set xs)"
| "py_in s (JObj kvs) = Inr (s \<in> set (map fst kvs))"
| "py_in s JNull = Inl TypeError"
| "py_in s (JBool b) = Inl TypeError"
| "py_in s (JNum n) = Inl TypeError"




text \<open>\<open>dict.get\<close> on the key-value pairs of a dictionary.\<close>

definition get_or :: "json \<Rightarrow> (string \<times> json) list \<Rightarrow> string \<Rightarrow> json" where
  "get_or d kvs key = (case map_of kvs key of None \<Rightarrow> d | Some v \<Rightarrow> v)"

subsection \<open>Float arithmetic\<close>

text \<open>
  Times are Python floats. A finite float is a real number; the result of a float
  addition or subtraction is the exact result rounded to the nearest IEEE 754 double, ties
  to the even significand. \<open>double\<close> is that rounding, for magnitudes below the overflow
  threshold: 53 significant bits at exponent \<open>expo\<close>, with the fixed spacing of the
  subnormal numbers below exponent -1022.
\<close>

definition pow2 :: "int \<Rightarrow> real" where
  "pow2 k = (if 0 \<le> k then 2 ^ nat k else 1 / 2 ^ nat (- k))"

primrec expo :: "nat \<Rightarrow> real \<Rightarrow> int" where
  "expo 0 y = 0"
| "expo (Suc n) y =
     (if 2 \<le> y then expo n (y / 2) + 1 else if y < 1 then expo n (2 * y) - 1 else 0)"

definition round_half_even :: "real \<Rightarrow> int" where
  "round_half_even y =
     (let f = \<lfloor>y\<rfloor>; d = y - of_int f
      in if d < 1 / 2 then f else if 1 / 2 < d then f + 1 else if even f then f else f + 1)"

definition double :: "real \<Rightarrow> real" where
  "double x =
     (if x = 0 then 0
      else (let e = max (expo 1100 \<bar>x\<bar>) (- 1022);
                m = round_half_even (\<bar>x\<bar> * pow2 (52 - e))
            in sgn x * of_int m * pow2 (e - 52)))"

subsection \<open>The world and its answers\<close>

text \<open>
  \<open>clock\<close> is what \<open>time.time()\<close> returns, \<open>requests\<close> counts the HTTP GETs issued so
  far, and \<open>trace\<close> records, in order, every GET, every \<open>time.sleep\<close> and every file
  written completely.
\<close>

datatype event = Get string | Slept real | Wrote string

record world =
  clock :: real
  requests :: nat
  trace :: "event list"

text \<open>
  How a streamed image GET ends: \<open>session.get\<close> or \<open>raise_for_status\<close> raises a
  \<open>RequestException\<close>, or \<open>iter_content\<close> raises one while the file is being written,
  or the body arrives completely.
\<close>

datatype get_outcome = Connect_error string | Stream_error string | Complete

text \<open>
  What the archives, the network, the file system, the OCR engine and Python's \<open>str\<close>
  answer. The reply to the \<open>n\<close>-th GET of a search or an item is \<open>Inl msg\<close> when the
  request raises a \<open>RequestException\<close> (which covers a body that is not JSON), and the
  decoded body otherwise. \<open>latency n\<close> is the time that GET takes. \<open>makedirs_error\<close> and
  \<open>open_error\<close> say, at the time of the \<open>n\<close>-th GET, whether creating a directory, or
  opening and writing a file, raises. \<open>ocr_reply\<close> is \<open>None\<close> when opening, recognising or
  saving the text of an image raises. \<open>py_str\<close> is \<open>str(v)\<close> for a value that is not a
  string.
\<close>

record env =
  search_reply :: "nat \<Rightarrow> string \<Rightarrow> string \<Rightarrow> string + json"
  item_reply :: "nat \<Rightarrow> string \<Rightarrow> string \<Rightarrow> string + json"
  image_reply :: "nat \<Rightarrow> string \<Rightarrow> get_outcome"
  latency :: "nat \<Rightarrow> real"
  makedirs_error :: "nat \<Rightarrow> string \<Rightarrow> exn option"
  open_error :: "nat \<Rightarrow> string \<Rightarrow> exn option"
  ocr_reply :: "string \<Rightarrow> string option"
  py_str :: "json \<Rightarrow> string"


text \<open>
  \<open>os.path.dirname\<close>: the part up to the last slash, without its trailing slashes
  unless it consists of slashes only.
\<close>

definition dirname :: "string \<Rightarrow> string" where
  "dirname p =
     (let tail = dropWhile (\<lambda>c. c \<noteq> CHR ''/'') (rev p)
      in if list_all (\<lambda>c. c = CHR ''/'') tail then rev tail
         else rev (dropWhile (\<lambda>c. c = CHR ''/'') tail))"

text \<open>\<open>os.makedirs(d, exist_ok=True)\<close>: the empty path is never found.\<close>

definition makedirs :: "env \<Rightarrow> nat \<Rightarrow> string \<Rightarrow> exn option" where
  "makedirs e n d = (if d = [] then Some FileNotFoundError else makedirs_error e n d)"

text \<open>
  What creating the directory of a destination, and then opening and writing the file,
  raise at the time of the \<open>n\<close>-th GET.
\<close>

definition fs_exn :: "env \<Rightarrow> nat \<Rightarrow> string \<Rightarrow> exn option" where
  "fs_exn e n path =
     (case makedirs e n (dirname path) of Some x \<Rightarrow> Some x | None \<Rightarrow> open_error e n path)"

section \<open>ArchiveAPIClient\<close>

definition MAX_DOWNLOAD_RETRIES :: nat where
  "MAX_DOWNLOAD_RETRIES = 3"

definition RATE_LIMIT_DELAY :: real where
  "RATE_LIMIT_DELAY = 1"

record client =
  name :: string
  endpoints :: "(string \<times> string) list"
  last_request_time :: real

text \<open>
  \<open>time.sleep(d)\<close> on an injected clock, which adds \<open>d\<close> to its reading, and a GET,
  which takes its latency. Both additions are float additions.
\<close>

definition sleep :: "real \<Rightarrow> world \<Rightarrow> world" where
  "sleep d w = w\<lparr>clock := double (clock w + d), trace := trace w @ [Slept d]\<rparr>"

definition http_get :: "env \<Rightarrow> string \<Rightarrow> world \<Rightarrow> world" where
  "http_get e url w =
     w\<lparr>clock := double (clock w + latency e (requests w)), requests := Suc (requests w),
       trace := trace w @ [Get url]\<rparr>"

definition rate_limit :: "client \<Rightarrow> world \<Rightarrow> client \<times> world" where
  "rate_limit c w =
     (let current_time = clock w;
          time_since_last = double (current_time - last_request_time c);
          w1 = (if time_since_last < RATE_LIMIT_DELAY
                then sleep (double (RATE_LIMIT_DELAY - time_since_last)) w else w)
      in (c\<lparr>last_request_time := clock w1\<rparr>, w1))"

text \<open>The dictionary that \<open>search\<close> returns when the request raises.\<close>

definition error_response :: "string \<Rightarrow> json" where
  "error_response msg = JObj [(''error'', JStr msg), (''results'', JArr [])]"

text \<open>
  \<open>search\<close> and \<open>get_document\<close> look their endpoint up after \<open>_rate_limit\<close> and before
  the \<open>try\<close>: a client without that endpoint raises \<open>KeyError\<close>.
\<close>

definition search :: "env \<Rightarrow> string \<Rightarrow> client \<Rightarrow> world \<Rightarrow> (exn + json) \<times> client \<times> world" where
  "search e query c w =
     (let (c1, w1) = rate_limit c w
      in (case map_of (endpoints c) ''search'' of
            None \<Rightarrow> (Inl (KeyError ''search''), c1, w1)
          | Some endpoint \<Rightarrow>
              (let w2 = http_get e (name c) w1
               in (case search_reply e (requests w1) (name c) query of
                     Inl msg \<Rightarrow> (Inr (error_response msg), c1, w2)
                   | Inr js \<Rightarrow> (Inr js, c1, w2)))))"

definition get_document :: "env \<Rightarrow> string \<Rightarrow> client \<Rightarrow> world \<Rightarrow> (exn + json) \<times> client \<times> world" where
  "get_document e doc_id c w =
     (let (c1, w1) = rate_limit c w
      in (case map_of (endpoints c) ''item'' of
            None \<Rightarrow> (Inl (KeyError ''item''), c1, w1)
          | Some endpoint \<Rightarrow>
              (let w2 = http_get e (name c) w1
               in (case item_reply e (requests w1) (name c) doc_id of
                     Inl msg \<Rightarrow> (Inr (JObj [(''error'', JStr msg)]), c1, w2)
                   | Inr js \<Rightarrow> (Inr js, c1, w2)))))"

text \<open>
  The \<open>while retries < MAX_DOWNLOAD_RETRIES\<close> loop of \<open>download_document_image\<close>. Only a
  \<open>RequestException\<close> is caught: it increments \<open>retries\<close> and sleeps \<open>retries * 2\<close>
  seconds. Once the GET has answered, the directory of the destination is created and the
  file opened and written; what these raise leaves the function. A body that arrives
  completely returns \<open>True\<close>; one that breaks off raises a \<open>RequestException\<close> after
  the file has been opened.
\<close>

function download_attempts ::
    "env \<Rightarrow> string \<Rightarrow> string \<Rightarrow> nat \<Rightarrow> world \<Rightarrow> (exn + bool) \<times> world" where
  "download_attempts e image_url output_path retries w =
     (if retries < MAX_DOWNLOAD_RETRIES
      then (let w1 = http_get e image_url w
            in (case image_reply e (requests w) image_url of
                  Connect_error msg \<Rightarrow>
                    download_attempts e image_url output_path (Suc retries)
                      (sleep (real (Suc retries * 2)) w1)
                | Stream_error msg \<Rightarrow>
                    (case fs_exn e (requests w) output_path of
                       Some x \<Rightarrow> (Inl x, w1)
                     | None \<Rightarrow>
                         download_attempts e image_url output_path (Suc retries)
                           (sleep (real (Suc retries * 2)) w1))
                | Complete \<Rightarrow>
                    (case fs_exn e (requests w) output_path of
                       Some x \<Rightarrow> (Inl x, w1)
                     | None \<Rightarrow> (Inr True, w1\<lparr>trace := trace w1 @ [Wrote output_path]\<rparr>))))
      else (Inr False, w))"
  by pat_completeness auto
termination
  by (relation "measure (\<lambda>(e, image_url, output_path, retries, w). MAX_DOWNLOAD_RETRIES - retries)") auto

definition download_document_image ::
    "env \<Rightarrow> string \<Rightarrow> string \<Rightarrow> client \<Rightarrow> world \<Rightarrow> (exn + bool) \<times> client \<times> world" where
  "download_document_image e image_url output_path c w =
     (let (c1, w1) = rate_limit c w;
          (ok, w2) = download_attempts e image_url output_path 0 w1
      in (ok, c1, w2))"

section \<open>FairfaxLetterAgent: searching\<close>

text \<open>
  A record of \<open>self.search_results\<close>. The archive name is set by the agent; the other
  fields are whatever the item of the reply holds.
\<close>

record search_record =
  archive :: string
  reference :: json
  title :: json
  date :: json
  item_id :: json
  image_urls :: json

record agent =
  search_results :: "search_record list"
  most_likely_locations :: "string list"
  api_clients :: "client list"
  ocr_available :: bool

definition ARCHIVES :: "(string \<times> (string \<times> string) list) list" where
  "ARCHIVES =
     [(''Churchill Archives Centre'',
       [(''search'', ''search''), (''item'', ''archives/record''),
        (''collection'', ''archives/collection'')]),
      (''Library and Archives Canada'', [(''search'', ''record''), (''item'', ''item'')]),
      (''University of Toronto Archives'',
       [(''search'', ''index.php/informationobject/browse'')])]"

text \<open>\<open>FairfaxLetterAgent.__init__\<close>; whether OCR is available depends on the installation.\<close>

definition agent_init :: "bool \<Rightarrow> agent" where
  "agent_init ocr =
     \<lparr>search_results = [], most_likely_locations = [],
      api_clients = map (\<lambda>a. \<lparr>name = fst a, endpoints = snd a, last_request_time = 0\<rparr>) ARCHIVES,
      ocr_available = ocr\<rparr>"


definition store_client :: "nat \<Rightarrow> client \<Rightarrow> agent \<Rightarrow> agent" where
  "store_client i c ag = ag\<lparr>api_clients := (api_clients ag)[i := c]\<rparr>"








section \<open>FairfaxLetterAgent: downloading\<close>



record downloaded_doc =
  doc_archive :: string
  doc_reference :: json
  doc_title :: json
  doc_date :: json
  images :: "string list"

text \<open>
  The sort key of \<open>download_documents\<close>: 0 for a record whose date contains \<open>1946\<close> and
  one of \<open>Oct\<close>, \<open>Nov\<close>, \<open>December\<close>, and 1 for any other; a date that is neither a
  string nor a container raises \<open>TypeError\<close> at \<open>"1946" in\<close>. The conjunction and \<open>any\<close>
  stop at the first test that decides them.
\<close>

fun any_month :: "string list \<Rightarrow> json \<Rightarrow> exn + bool" where
  "any_month [] d = Inr False"
| "any_month (month # months) d =
     (case py_in month d of
        Inl x \<Rightarrow> Inl x
      | Inr True \<Rightarrow> Inr True
      | Inr False \<Rightarrow> any_month months d)"

definition priority_key :: "search_record \<Rightarrow> exn + nat" where
  "priority_key x =
     (case py_in ''1946'' (date x) of
        Inl err \<Rightarrow> Inl err
      | Inr False \<Rightarrow> Inr 1
      | Inr True \<Rightarrow>
          (case any_month [''Oct'', ''Nov'', ''December''] (date x) of
             Inl err \<Rightarrow> Inl err
           | Inr found \<Rightarrow> Inr (if found then 0 else 1)))"

text \<open>
  \<open>sorted(..., key=...)\<close> computes the key of every record, in order, and then sorts
  stably by the keys, as \<open>sort_key\<close> does.
\<close>

fun keyed :: "search_record list \<Rightarrow> exn + (nat \<times> search_record) list" where
  "keyed [] = Inr []"
| "keyed (x # xs) =
     (case priority_key x of
        Inl err \<Rightarrow> Inl err
      | Inr k \<Rightarrow> (case keyed xs of Inl err \<Rightarrow> Inl err | Inr kxs \<Rightarrow> Inr ((k, x) # kxs)))"

definition prioritized_results :: "search_record list \<Rightarrow> exn + search_record list" where
  "prioritized_results rs =
     (case keyed rs of Inl err \<Rightarrow> Inl err | Inr kxs \<Rightarrow> Inr (map snd (sort_key fst kxs)))"






section \<open>FairfaxLetterAgent: OCR\<close>

record page =
  image_path :: string
  page_text :: string

record ocr_doc =
  ocr_archive :: string
  ocr_reference :: json
  ocr_title :: json
  ocr_date :: json
  pages :: "page list"
  doc_analysis :: "analysis option"

text \<open>
  \<open>OCRProcessor.process_image\<close>: a placeholder when OCR is unavailable, the empty text
  when the engine raises, the recognised text otherwise.
\<close>

definition process_image :: "bool \<Rightarrow> env \<Rightarrow> string \<Rightarrow> string" where
  "process_image available e path =
     (if \<not> available then ''[OCR UNAVAILABLE - INSTALL REQUIRED DEPENDENCIES]''
      else (case ocr_reply e path of None \<Rightarrow> [] | Some t \<Rightarrow> t))"

definition page_sep :: string where
  "page_sep = [CHR 0x0A, CHR 0x0A]"

definition process_doc :: "bool \<Rightarrow> env \<Rightarrow> downloaded_doc \<Rightarrow> ocr_doc" where
  "process_doc available e doc =
     (let all_text = map (process_image available e) (images doc)
      in \<lparr>ocr_archive = doc_archive doc, ocr_reference = doc_reference doc,
          ocr_title = doc_title doc, ocr_date = doc_date doc,
          pages = map (\<lambda>p. \<lparr>image_path = p, page_text = process_image available e p\<rparr>) (images doc),
          doc_analysis =
            (if all_text \<noteq> [] then Some (analyze_text (join page_sep all_text)) else None)\<rparr>)"

definition process_ocr :: "bool \<Rightarrow> env \<Rightarrow> downloaded_doc list \<Rightarrow> ocr_doc list" where
  "process_ocr available e downloaded_docs = map (process_doc available e) downloaded_docs"

section \<open>FairfaxLetterAgent: letter extraction\<close>

text \<open>The \<open>letter_content\<close> dictionary: each of its four keys is present or not.\<close>

record letter_content =
  lc_date :: "string option"
  lc_salutation :: "string option"
  lc_signature :: "string option"
  lc_body :: "string option"

record letter =
  letter_archive :: string
  letter_reference :: json
  letter_title :: json
  letter_date :: json
  extracted_content :: letter_content
  letter_score :: int
  full_text :: string

text \<open>\<open>not letter_content.get(key)\<close>: the key is absent or its text is empty.\<close>

definition unset :: "string option \<Rightarrow> bool" where
  "unset v = (case v of None \<Rightarrow> True | Some s \<Rightarrow> s = [])"

text \<open>\<open>len(letter_content)\<close>: the number of keys present.\<close>

definition content_len :: "letter_content \<Rightarrow> nat" where
  "content_len lc =
     length (filter (\<lambda>v. v \<noteq> None) [lc_date lc, lc_salutation lc, lc_signature lc, lc_body lc])"

definition line_date_pattern :: rx where
  "line_date_pattern =
     Cat [Rep Digit 1 (Some 2), Rep Space 1 None, Rep Word 1 None, Rep Space 1 None,
          Str ''19'', Rep Digit 2 (Some 2)]"

record scan_state =
  content :: letter_content
  in_body :: bool
  body_lines :: "string list"

definition scan_init :: scan_state where
  "scan_init =
     \<lparr>content = \<lparr>lc_date = None, lc_salutation = None, lc_signature = None, lc_body = None\<rparr>,
      in_body = False, body_lines = []\<rparr>"

text \<open>One round of the \<open>for line in lines\<close> loop, with its \<open>if\<close>/\<open>elif\<close> chain.\<close>

definition scan_line :: "string \<Rightarrow> scan_state \<Rightarrow> scan_state" where
  "scan_line raw st =
     (let line = strip raw
      in if line = [] then st
         else if unset (lc_date (content st)) \<and> matches False line_date_pattern line
           then st\<lparr>content := (content st)\<lparr>lc_date := Some line\<rparr>\<rparr>
         else if unset (lc_salutation (content st)) \<and> startswith line ''Dear''
           then st\<lparr>content := (content st)\<lparr>lc_salutation := Some line\<rparr>, in_body := True\<rparr>
         else if in_body st \<and> (contains ''Sincerely'' line \<or> contains ''Yours'' line)
           then st\<lparr>content := (content st)\<lparr>lc_signature := Some line\<rparr>, in_body := False\<rparr>
         else if in_body st
           then st\<lparr>body_lines := body_lines st @ [line]\<rparr>
         else st)"

definition scan_lines :: "string list \<Rightarrow> scan_state" where
  "scan_lines lines = foldl (\<lambda>st raw. scan_line raw st) scan_init lines"

definition set_body :: "scan_state \<Rightarrow> letter_content" where
  "set_body st =
     (if body_lines st \<noteq> []
      then (content st)\<lparr>lc_body := Some (join [CHR 0x0A] (body_lines st))\<rparr>
      else content st)"

definition extract_fields :: "string \<Rightarrow> letter_content" where
  "extract_fields all_text = set_body (scan_lines (split_nl all_text))"

text \<open>
  The body of the \<open>for doc in ocr_results\<close> loop: \<open>None\<close> where the document is skipped
  or shows too little structure, the letter appended otherwise.
\<close>

definition extract_doc :: "ocr_doc \<Rightarrow> letter option" where
  "extract_doc doc =
     (case doc_analysis doc of
        None \<Rightarrow> None
      | Some a \<Rightarrow>
          if \<not> likely_correspondence a then None
          else (let all_text = join page_sep (map page_text (pages doc));
                    lc = extract_fields all_text
                in if content_len lc \<ge> 2
                   then Some \<lparr>letter_archive = ocr_archive doc, letter_reference = ocr_reference doc,
                              letter_title = ocr_title doc, letter_date = ocr_date doc,
                              extracted_content = lc, letter_score = relevance_score a,
                              full_text = all_text\<rparr>
                   else None))"

text \<open>
  \<open>potential_letters.sort(key=..., reverse=True)\<close> is stable: letters of equal score keep
  their order. Sorting by the negated score with the stable \<open>sort_key\<close> does the same.
\<close>

definition extract_letter_content :: "ocr_doc list \<Rightarrow> letter list" where
  "extract_letter_content ocr_results =
     sort_key (\<lambda>x. - letter_score x) (List.map_filter extract_doc ocr_results)"

section \<open>FairfaxLetterAgent.execute_full_search\<close>








section \<open>Auxiliary notions for the statements\<close>

text \<open>The date bonus that the group texts of one date match earn.\<close>

definition date_bonus :: "string list \<Rightarrow> int" where
  "date_bonus m =
     (case m of
        [day, month, year] \<Rightarrow> if py_int year = Some 1946 \<and> month_get month \<ge> 10 then 30 else 0
      | _ \<Rightarrow> 0)"

text \<open>A search record that carries the date text \<open>d\<close>.\<close>

definition dated :: "string \<Rightarrow> search_record" where
  "dated d =
     \<lparr>archive = ''Churchill Archives Centre'', reference = JStr ''Unknown'',
      title = JStr ''Untitled'', date = JStr d, item_id = JNull, image_urls = JArr []\<rparr>"

text \<open>The key that the sort sees when the key function does not raise.\<close>

definition key_value :: "search_record \<Rightarrow> nat" where
  "key_value x = (case priority_key x of Inl err \<Rightarrow> 0 | Inr k \<Rightarrow> k)"

text \<open>
  Sample surroundings: no archive answers, nothing is recognised, the file system works,
  time stands still.
\<close>

definition offline :: env where
  "offline =
     \<lparr>search_reply = (\<lambda>n a q. Inl ''unreachable''), item_reply = (\<lambda>n a d. Inl ''unreachable''),
      image_reply = (\<lambda>n u. Connect_error ''unreachable''), latency = (\<lambda>n. 0),
      makedirs_error = (\<lambda>n d. None), open_error = (\<lambda>n p. None),
      ocr_reply = (\<lambda>p. None), py_str = (\<lambda>v. [])\<rparr>"

definition world_at :: "real \<Rightarrow> world" where
  "world_at t = \<lparr>clock = t, requests = 0, trace = []\<rparr>"

definition fresh_client :: "string \<Rightarrow> client" where
  "fresh_client n =
     \<lparr>name = n, endpoints = [(''search'', ''search''), (''item'', ''item'')],
      last_request_time = 0\<rparr>"

text \<open>A sample letter, and the OCR result of a one-page document with a given text.\<close>

definition letter_lines :: "string list" where
  "letter_lines =
     [''12 November 1946'', ''Dear Winston,'', ''It was good to see you.'', ''Yours sincerely,'',
      ''Bryan'']"

definition one_page :: "string \<Rightarrow> ocr_doc" where
  "one_page t =
     \<lparr>ocr_archive = ''Churchill Archives Centre'', ocr_reference = JStr ''Unknown'',
      ocr_title = JStr ''Untitled'', ocr_date = JStr [],
      pages = [\<lparr>image_path = ''page_1.jpg'', page_text = t\<rparr>],
      doc_analysis = Some (analyze_text t)\<rparr>"

text \<open>A downloaded one-page document, and surroundings whose OCR engine reads \<open>t\<close>.\<close>

definition scanned :: downloaded_doc where
  "scanned =
     \<lparr>doc_archive = ''Churchill Archives Centre'', doc_reference = JStr ''Unknown'',
      doc_title = JStr ''Untitled'', doc_date = JStr [], images = [''page_1.jpg'']\<rparr>"

definition reads :: "string \<Rightarrow> env" where
  "reads t = offline\<lparr>ocr_reply := \<lambda>p. Some t\<rparr>"




text \<open>
  Sequences of calls on one client. A call is one of the three request methods, whose
  result or exception the caller takes; before each call the caller lets the clock
  advance. \<open>stamps\<close> lists the \<open>last_request_time\<close> that each call leaves behind, which
  is the time at which the call passes the limiter. \<open>exact_limit\<close> says that the float
  operations of one pass through \<open>_rate_limit\<close> and of its sleep round nothing, and
  \<open>exact_run\<close> that this is so at every call of a sequence.
\<close>

datatype request = Search string | Get_document string | Download string string

fun perform :: "env \<Rightarrow> request \<Rightarrow> client \<Rightarrow> world \<Rightarrow> client \<times> world" where
  "perform e (Search query) c w = snd (search e query c w)"
| "perform e (Get_document doc_id) c w = snd (get_document e doc_id c w)"
| "perform e (Download image_url output_path) c w =
     snd (download_document_image e image_url output_path c w)"

definition pause :: "real \<Rightarrow> world \<Rightarrow> world" where
  "pause d w = w\<lparr>clock := double (clock w + d)\<rparr>"

fun stamps :: "env \<Rightarrow> (real \<times> request) list \<Rightarrow> client \<Rightarrow> world \<Rightarrow> real list" where
  "stamps e [] c w = []"
| "stamps e ((d, rq) # calls) c w =
     (let (c1, w1) = perform e rq c (pause d w)
      in last_request_time c1 # stamps e calls c1 w1)"

definition exact_limit :: "client \<Rightarrow> world \<Rightarrow> bool" where
  "exact_limit c w =
     (let since = clock w - last_request_time c;
          sleep_time = RATE_LIMIT_DELAY - since
      in double since = since \<and>
         (if since < RATE_LIMIT_DELAY
          then double sleep_time = sleep_time \<and> double (clock w + sleep_time) = clock w + sleep_time
          else True))"

fun exact_run :: "env \<Rightarrow> (real \<times> request) list \<Rightarrow> client \<Rightarrow> world \<Rightarrow> bool" where
  "exact_run e [] c w = True"
| "exact_run e ((d, rq) # calls) c w =
     (exact_limit c (pause d w) \<and>
      (let (c1, w1) = perform e rq c (pause d w) in exact_run e calls c1 w1))"

text \<open>The client that a fresh agent holds for the University of Toronto Archives.\<close>

definition toronto :: client where
  "toronto =
     \<lparr>name = ''University of Toronto Archives'',
      endpoints = [(''search'', ''index.php/informationobject/browse'')],
      last_request_time = 0\<rparr>"










section \<open>Properties of analyze_text\<close>

lemma any_pattern_iff: "any_pattern pats text \<longleftrightarrow> (\<exists>pat\<in>set pats. matches True pat text)"
  by (induction pats) auto

lemma parse_date_mentions:
  "mentions_churchill (parse_date m a) = mentions_churchill a"
  "mentions_fairfax (parse_date m a) = mentions_fairfax a"
  "likely_correspondence (parse_date m a) = likely_correspondence a"
  by (auto simp: parse_date_def Let_def split: list.splits option.splits)

lemma check_date_mentions:
  "mentions_churchill (check_date text a) = mentions_churchill a"
  "mentions_fairfax (check_date text a) = mentions_fairfax a"
  "likely_correspondence (check_date text a) = likely_correspondence a"
  by (auto simp: check_date_def parse_date_mentions split: list.splits)

lemma parse_date_score: "relevance_score (parse_date m a) = relevance_score a + date_bonus m"
  by (auto simp: parse_date_def date_bonus_def Let_def split: list.splits option.splits)

lemma date_bonus_cases: "date_bonus m = 0 \<or> date_bonus m = 30"
  by (auto simp: date_bonus_def split: list.splits)

lemma check_date_score:
  "relevance_score (check_date text a) =
     relevance_score a + (case date_matches text of [] \<Rightarrow> 0 | m # _ \<Rightarrow> date_bonus m)"
  by (auto simp: check_date_def parse_date_score split: list.splits)

lemma entity_state:
  "mentions_churchill (check_fairfax text (check_churchill text analysis_init)) = any_pattern churchill_patterns text"
  "mentions_fairfax (check_fairfax text (check_churchill text analysis_init)) = any_pattern fairfax_patterns text"
  "likely_correspondence (check_fairfax text (check_churchill text analysis_init)) = False"
  "relevance_score (check_fairfax text (check_churchill text analysis_init)) =
     (if any_pattern churchill_patterns text then 10 else 0) + (if any_pattern fairfax_patterns text then 10 else 0)"
  by (auto simp: check_fairfax_def check_churchill_def analysis_init_def)

lemma verdict_fields:
  "mentions_churchill (verdict a) = mentions_churchill a"
  "mentions_fairfax (verdict a) = mentions_fairfax a"
  "relevance_score (verdict a) = relevance_score a"
  "date_found (verdict a) = date_found a"
  "likely_correspondence (verdict a) =
     (likely_correspondence a \<or> mentions_churchill a \<and> mentions_fairfax a \<and> relevance_score a \<ge> 20)"
  by (auto simp: verdict_def)

lemma analyze_text_mentions:
  "mentions_churchill (analyze_text text) = any_pattern churchill_patterns text"
  "mentions_fairfax (analyze_text text) = any_pattern fairfax_patterns text"
  by (simp_all add: analyze_text_def verdict_fields check_date_mentions check_date_score entity_state)

lemma analyze_text_score:
  "relevance_score (analyze_text text) =
     (if any_pattern churchill_patterns text then 10 else 0) +
     (if any_pattern fairfax_patterns text then 10 else 0) +
     (case date_matches text of [] \<Rightarrow> 0 | m # _ \<Rightarrow> date_bonus m)"
  by (simp add: analyze_text_def verdict_fields check_date_mentions check_date_score entity_state)

lemma analyze_text_likely:
  "likely_correspondence (analyze_text text) =
     (any_pattern churchill_patterns text \<and> any_pattern fairfax_patterns text \<and>
      relevance_score (analyze_text text) \<ge> 20)"
  by (simp_all add: analyze_text_def verdict_fields check_date_mentions check_date_score entity_state)

lemma first_bonus_cases:
  "(case ms of [] \<Rightarrow> 0 | m # _ \<Rightarrow> date_bonus m) = 0 \<or> (case ms of [] \<Rightarrow> 0 | m # _ \<Rightarrow> date_bonus m) = 30"
  using date_bonus_cases by (cases ms) auto

text \<open>
  Claim C1. For every text, \<open>analyze_text\<close> sets \<open>likely_correspondence\<close> exactly when
  some Churchill pattern and some Fairfax pattern match the text, ignoring case, and the
  relevance score is at least 20; and whenever both kinds of pattern match, the score is
  at least 20 and \<open>likely_correspondence\<close> is set.
\<close>

theorem analyze_text_verdict:
  "(likely_correspondence (analyze_text text) \<longleftrightarrow>
      (\<exists>pat\<in>set churchill_patterns. matches True pat text) \<and>
      (\<exists>pat\<in>set fairfax_patterns. matches True pat text) \<and>
      relevance_score (analyze_text text) \<ge> 20) \<and>
   ((\<exists>pat\<in>set churchill_patterns. matches True pat text) \<and>
    (\<exists>pat\<in>set fairfax_patterns. matches True pat text) \<longrightarrow>
      relevance_score (analyze_text text) \<ge> 20 \<and> likely_correspondence (analyze_text text))"
proof -
  have s: "(any_pattern churchill_patterns text \<and> any_pattern fairfax_patterns text) \<longrightarrow>
           relevance_score (analyze_text text) \<ge> 20"
    using first_bonus_cases [of "date_matches text"]
    by (auto simp: analyze_text_score)
  show ?thesis
    using s analyze_text_likely [of "text"]
    by (simp add: any_pattern_iff [symmetric])
qed

theorem analyze_text_verdict_witness:
  "(\<exists>pat\<in>set churchill_patterns. matches True pat ''Winston wrote to Colonel Fairfax'') \<and>
   (\<exists>pat\<in>set fairfax_patterns. matches True pat ''Winston wrote to Colonel Fairfax'') \<and>
   relevance_score (analyze_text ''Winston wrote to Colonel Fairfax'') \<ge> 20 \<and>
   likely_correspondence (analyze_text ''Winston wrote to Colonel Fairfax'')"
proof -
  have c: "\<exists>pat\<in>set churchill_patterns. matches True pat ''Winston wrote to Colonel Fairfax''"
    by code_simp
  have f: "\<exists>pat\<in>set fairfax_patterns. matches True pat ''Winston wrote to Colonel Fairfax''"
    by code_simp
  show ?thesis
    using c f analyze_text_verdict [of "''Winston wrote to Colonel Fairfax''"] by blast
qed

text \<open>
  Claim C9. For every text, the relevance score of \<open>analyze_text\<close> is the sum of a
  Churchill bonus (10 if some Churchill pattern matches, else 0), a Fairfax bonus (10 if
  some Fairfax pattern matches, else 0) and a date bonus of 0 or 30; so it lies between 0
  and 50, and \<open>likely_correspondence\<close> implies a score of at least 20.
\<close>

theorem relevance_score_bounds:
  "(\<exists>cb fb db.
      relevance_score (analyze_text text) = cb + fb + db \<and>
      cb = (if \<exists>pat\<in>set churchill_patterns. matches True pat text then 10 else 0) \<and>
      fb = (if \<exists>pat\<in>set fairfax_patterns. matches True pat text then 10 else 0) \<and>
      (db = 0 \<or> db = 30)) \<and>
   0 \<le> relevance_score (analyze_text text) \<and>
   relevance_score (analyze_text text) \<le> 50 \<and>
   (likely_correspondence (analyze_text text) \<longrightarrow> relevance_score (analyze_text text) \<ge> 20)"
  using first_bonus_cases [of "date_matches text"] analyze_text_likely [of "text"]
  by (auto simp: analyze_text_score any_pattern_iff [symmetric])

theorem relevance_score_bounds_witness:
  "likely_correspondence (analyze_text ''Winston wrote to Colonel Fairfax'') \<and>
   relevance_score (analyze_text ''Winston wrote to Colonel Fairfax'') \<ge> 20 \<and>
   relevance_score (analyze_text ''Winston wrote to Colonel Fairfax'') \<le> 50"
proof -
  have l: "likely_correspondence (analyze_text ''Winston wrote to Colonel Fairfax'')"
    by code_simp
  show ?thesis
    using l relevance_score_bounds [of "''Winston wrote to Colonel Fairfax''"] by blast
qed


section \<open>What the date pattern captures\<close>

lemma rmatch_Seq_elim:
  assumes "x \<in> set (rmatch ic (Seq r1 r2) p s)"
  obtains x1 x2 where "x1 \<in> set (rmatch ic r1 p s)"
    and "x2 \<in> set (rmatch ic r2 (prev_after p (fst x1)) (snd (snd x1)))"
    and "fst x = fst x1 @ fst x2" and "fst (snd x) = fst (snd x1) @ fst (snd x2)"
    and "snd (snd x) = snd (snd x2)"
  using assms by auto

lemma rmatch_Grp_elim:
  assumes "x \<in> set (rmatch ic (Grp r) p s)"
  obtains y where "y \<in> set (rmatch ic r p s)"
    and "fst x = fst y" and "fst (snd x) = fst y # fst (snd y)" and "snd (snd x) = snd (snd y)"
  using assms by auto

lemma rmatch_Rep_caps: "x \<in> set (rmatch ic (Rep a lo hi) p s) \<Longrightarrow> fst (snd x) = []"
  by (auto simp: Let_def)

lemma rmatch_Eps_caps: "x \<in> set (rmatch ic Eps p s) \<Longrightarrow> fst (snd x) = [] \<and> fst x = []"
  by auto

lemma rmatch_Str: "x \<in> set (rmatch False (Str w) p s) \<Longrightarrow> fst x = w \<and> fst (snd x) = []"
proof (induction w arbitrary: x p s)
  case Nil
  then show ?case by (simp add: Str_def)
next
  case (Cons c w)
  have "Str (c # w) = Seq (Atom (Lit c)) (Str w)"
    by (simp add: Str_def)
  with Cons.prems have "x \<in> set (rmatch False (Seq (Atom (Lit c)) (Str w)) p s)"
    by (simp only:)
  then obtain x1 x2 where x1: "x1 \<in> set (rmatch False (Atom (Lit c)) p s)"
    and x2: "x2 \<in> set (rmatch False (Str w) (prev_after p (fst x1)) (snd (snd x1)))"
    and m: "fst x = fst x1 @ fst x2" and c: "fst (snd x) = fst (snd x1) @ fst (snd x2)"
    by (rule rmatch_Seq_elim)
  from x1 have "fst x1 = [c] \<and> fst (snd x1) = []"
    by (auto split: list.splits if_splits)
  with Cons.IH [OF x2] m c show ?case by simp
qed

lemma rmatch_Alts_Str:
  "ws \<noteq> [] \<Longrightarrow> x \<in> set (rmatch False (Alts (map Str ws)) p s) \<Longrightarrow> fst x \<in> set ws \<and> fst (snd x) = []"
proof (induction ws)
  case Nil
  then show ?case by simp
next
  case (Cons w ws)
  show ?case
  proof (cases "ws = []")
    case True
    with Cons.prems show ?thesis by (auto simp: Alts_def dest: rmatch_Str)
  next
    case False
    then have "Alts (map Str (w # ws)) = Alt (Str w) (Alts (map Str ws))"
      by (simp add: Alts_def)
    with Cons.prems have "x \<in> set (rmatch False (Str w) p s) \<or> x \<in> set (rmatch False (Alts (map Str ws)) p s)"
      by simp
    with Cons.IH False show ?thesis by (auto dest: rmatch_Str)
  qed
qed

lemma py_int_digits: "s \<noteq> [] \<Longrightarrow> list_all is_digit s \<Longrightarrow> py_int s \<noteq> None"
  by (simp add: py_int_def)

lemma take_takeWhile_all: "k \<le> length (takeWhile P s) \<Longrightarrow> list_all P (take k s)"
proof (induction s arbitrary: k)
  case Nil
  then show ?case by simp
next
  case (Cons c s)
  then show ?case by (cases k) (auto split: if_splits)
qed

lemma rmatch_Rep_elim:
  assumes "x \<in> set (rmatch ic (Rep a lo hi) p s)"
  obtains k where "lo \<le> k" and "k \<le> length (takeWhile (atom_ok ic a) s)"
    and "\<forall>h. hi = Some h \<longrightarrow> k \<le> h"
    and "fst x = take k s" and "fst (snd x) = []" and "snd (snd x) = drop k s"
proof -
  let ?n = "length (takeWhile (atom_ok ic a) s)"
  let ?m = "case hi of None \<Rightarrow> ?n | Some h \<Rightarrow> min ?n h"
  from assms have "x \<in> set (map (\<lambda>k. (take k s, [], drop k s)) (rev [lo ..< Suc ?m]))"
    by (simp only: rmatch.simps Let_def)
  then obtain k where "k \<in> set [lo ..< Suc ?m]" and x: "x = (take k s, [], drop k s)"
    by (auto simp only: set_map set_rev)
  then have k: "lo \<le> k" "k \<le> ?m"
    by (simp_all only: set_upt atLeastLessThan_iff less_Suc_eq_le)
  from k(2) have "k \<le> ?n" and "\<forall>h. hi = Some h \<longrightarrow> k \<le> h"
    by (auto split: option.splits)
  with k(1) x that show thesis by simp
qed

lemma rmatch_Rep_all:
  "x \<in> set (rmatch ic (Rep a lo hi) p s) \<Longrightarrow> list_all (atom_ok ic a) (fst x)"
  by (erule rmatch_Rep_elim) (simp add: take_takeWhile_all)

lemma rmatch_Rep_length:
  "x \<in> set (rmatch ic (Rep a lo hi) p s) \<Longrightarrow> lo \<le> length s \<and> lo \<le> length (fst x)"
proof (erule rmatch_Rep_elim)
  fix k
  assume "lo \<le> k" "k \<le> length (takeWhile (atom_ok ic a) s)" "fst x = take k s"
  moreover have "length (takeWhile (atom_ok ic a) s) \<le> length s"
    by (rule length_takeWhile_le)
  ultimately show "lo \<le> length s \<and> lo \<le> length (fst x)" by simp
qed

lemma range_digit: "atom_ok ic (Range CHR ''0'' CHR ''9'') = is_digit"
  by (rule ext) (simp add: is_digit_def code_def Let_def)

text \<open>The year group \<open>(19[0-9]{2})\<close> only ever captures a string that \<open>int\<close> accepts.\<close>

lemma rmatch_year:
  assumes "x \<in> set (rmatch False (Cat [Str ''19'', Rep (Range CHR ''0'' CHR ''9'') 2 (Some 2)]) p s)"
  shows "fst (snd x) = [] \<and> py_int (fst x) \<noteq> None"
proof -
  have "Cat [Str ''19'', Rep (Range CHR ''0'' CHR ''9'') 2 (Some 2)] =
          Seq (Str ''19'') (Seq (Rep (Range CHR ''0'' CHR ''9'') 2 (Some 2)) Eps)"
    by (simp add: Cat_def)
  with assms have "x \<in> set (rmatch False (Seq (Str ''19'') (Seq (Rep (Range CHR ''0'' CHR ''9'') 2 (Some 2)) Eps)) p s)"
    by (simp only:)
  then obtain x1 x2 where x1: "x1 \<in> set (rmatch False (Str ''19'') p s)"
    and x2: "x2 \<in> set (rmatch False (Seq (Rep (Range CHR ''0'' CHR ''9'') 2 (Some 2)) Eps)
                          (prev_after p (fst x1)) (snd (snd x1)))"
    and m: "fst x = fst x1 @ fst x2" and c: "fst (snd x) = fst (snd x1) @ fst (snd x2)"
    by (rule rmatch_Seq_elim)
  from x2 obtain x3 x4 where x3: "x3 \<in> set (rmatch False (Rep (Range CHR ''0'' CHR ''9'') 2 (Some 2))
                          (prev_after p (fst x1)) (snd (snd x1)))"
    and x4: "x4 \<in> set (rmatch False Eps (prev_after (prev_after p (fst x1)) (fst x3)) (snd (snd x3)))"
    and m2: "fst x2 = fst x3 @ fst x4" and c2: "fst (snd x2) = fst (snd x3) @ fst (snd x4)"
    by (rule rmatch_Seq_elim)
  have a1: "fst x1 = ''19'' \<and> fst (snd x1) = []" using x1 by (rule rmatch_Str)
  have a3: "list_all is_digit (fst x3)" using rmatch_Rep_all [OF x3] by (simp add: range_digit)
  have a3c: "fst (snd x3) = []" using x3 by (rule rmatch_Rep_caps)
  have a4: "fst (snd x4) = [] \<and> fst x4 = []" using x4 by (rule rmatch_Eps_caps)
  have d19: "list_all is_digit ''19''" by (simp add: is_digit_def code_def Let_def)
  have "list_all is_digit (fst x)" using m m2 a1 a3 a4 d19 by simp
  moreover have "fst x \<noteq> []" using m a1 by simp
  ultimately have "py_int (fst x) \<noteq> None" by (rule py_int_digits [rotated])
  with c c2 a1 a3c a4 show ?thesis by simp
qed

text \<open>Every match of the date pattern captures exactly day, month and year.\<close>

lemma rmatch_date_pattern:
  assumes "x \<in> set (rmatch False date_pattern p s)"
  shows "\<exists>day month year. fst (snd x) = [day, month, year] \<and> month \<in> set month_names \<and>
           py_int year \<noteq> None"
proof -
  let ?D = "Grp (Rep Digit 1 (Some 2))"
  let ?S = "Rep Space 1 None"
  let ?M = "Grp (Alts (map Str month_names))"
  let ?Y = "Grp (Cat [Str ''19'', Rep (Range CHR ''0'' CHR ''9'') 2 (Some 2)])"
  have "date_pattern = Seq ?D (Seq ?S (Seq ?M (Seq ?S (Seq ?Y Eps))))"
    unfolding date_pattern_def by (simp only: Cat_def [of "[_, _, _, _, _]"] foldr.simps comp_apply id_apply)
  with assms have "x \<in> set (rmatch False (Seq ?D (Seq ?S (Seq ?M (Seq ?S (Seq ?Y Eps))))) p s)"
    by (simp only:)
  then obtain d r1 where d: "d \<in> set (rmatch False ?D p s)"
    and r1: "r1 \<in> set (rmatch False (Seq ?S (Seq ?M (Seq ?S (Seq ?Y Eps)))) (prev_after p (fst d)) (snd (snd d)))"
    and c0: "fst (snd x) = fst (snd d) @ fst (snd r1)"
    by (rule rmatch_Seq_elim)
  from r1 obtain s1 r2 where s1: "s1 \<in> set (rmatch False ?S (prev_after p (fst d)) (snd (snd d)))"
    and r2: "r2 \<in> set (rmatch False (Seq ?M (Seq ?S (Seq ?Y Eps))) (prev_after (prev_after p (fst d)) (fst s1)) (snd (snd s1)))"
    and c1: "fst (snd r1) = fst (snd s1) @ fst (snd r2)"
    by (rule rmatch_Seq_elim)
  from r2 obtain mo r3 where mo: "mo \<in> set (rmatch False ?M (prev_after (prev_after p (fst d)) (fst s1)) (snd (snd s1)))"
    and r3: "r3 \<in> set (rmatch False (Seq ?S (Seq ?Y Eps)) (prev_after (prev_after (prev_after p (fst d)) (fst s1)) (fst mo)) (snd (snd mo)))"
    and c2: "fst (snd r2) = fst (snd mo) @ fst (snd r3)"
    by (rule rmatch_Seq_elim)
  from r3 obtain s2 r4 where s2: "s2 \<in> set (rmatch False ?S (prev_after (prev_after (prev_after p (fst d)) (fst s1)) (fst mo)) (snd (snd mo)))"
    and r4: "r4 \<in> set (rmatch False (Seq ?Y Eps) (prev_after (prev_after (prev_after (prev_after p (fst d)) (fst s1)) (fst mo)) (fst s2)) (snd (snd s2)))"
    and c3: "fst (snd r3) = fst (snd s2) @ fst (snd r4)"
    by (rule rmatch_Seq_elim)
  from r4 obtain y r5 where y: "y \<in> set (rmatch False ?Y (prev_after (prev_after (prev_after (prev_after p (fst d)) (fst s1)) (fst mo)) (fst s2)) (snd (snd s2)))"
    and r5: "r5 \<in> set (rmatch False Eps (prev_after (prev_after (prev_after (prev_after (prev_after p (fst d)) (fst s1)) (fst mo)) (fst s2)) (fst y)) (snd (snd y)))"
    and c4: "fst (snd r4) = fst (snd y) @ fst (snd r5)"
    by (rule rmatch_Seq_elim)
  from d obtain d' where d': "d' \<in> set (rmatch False (Rep Digit 1 (Some 2)) p s)"
    and dc: "fst (snd d) = fst d' # fst (snd d')"
    by (rule rmatch_Grp_elim)
  from mo obtain mo' where mo': "mo' \<in> set (rmatch False (Alts (map Str month_names)) (prev_after (prev_after p (fst d)) (fst s1)) (snd (snd s1)))"
    and moc: "fst (snd mo) = fst mo' # fst (snd mo')"
    by (rule rmatch_Grp_elim)
  from y obtain y' where y': "y' \<in> set (rmatch False (Cat [Str ''19'', Rep (Range CHR ''0'' CHR ''9'') 2 (Some 2)]) (prev_after (prev_after (prev_after (prev_after p (fst d)) (fst s1)) (fst mo)) (fst s2)) (snd (snd s2)))"
    and yc: "fst (snd y) = fst y' # fst (snd y')"
    by (rule rmatch_Grp_elim)
  have e1: "fst (snd d') = []" using d' by (rule rmatch_Rep_caps)
  have e2: "fst (snd s1) = []" using s1 by (rule rmatch_Rep_caps)
  have e3: "fst mo' \<in> set month_names \<and> fst (snd mo') = []"
    using mo' by (intro rmatch_Alts_Str) (simp_all add: month_names_def)
  have e4: "fst (snd s2) = []" using s2 by (rule rmatch_Rep_caps)
  have e5: "fst (snd y') = [] \<and> py_int (fst y') \<noteq> None" using y' by (rule rmatch_year)
  have e6: "fst (snd r5) = []" using rmatch_Eps_caps [OF r5] by simp
  have "fst (snd x) = [fst d', fst mo', fst y']"
    using c0 c1 c2 c3 c4 dc moc yc e1 e2 e3 e4 e5 e6 by simp
  with e3 e5 show ?thesis by blast
qed

lemma re_findall_caps:
  "m \<in> set (re_findall ic r p s) \<Longrightarrow> \<exists>p' s' x. x \<in> set (rmatch ic r p' s') \<and> m = fst (snd x)"
proof (induction ic r p s rule: re_findall.induct)
  case (1 ic r p s)
  show ?case
  proof (cases "rmatch ic r p s")
    case Nil
    show ?thesis
    proof (cases s)
      case Nil': Nil
      with Nil "1.prems" show ?thesis by (simp add: re_findall.simps [of ic r p "[]"])
    next
      case (Cons c cs)
      with Nil "1.prems" have "m \<in> set (re_findall ic r (Some c) cs)"
        by (simp add: re_findall.simps [of ic r p "c # cs"])
      with "1.IH"(1) [OF Nil Cons] show ?thesis .
    qed
  next
    case (Cons x xs)
    have hd: "x \<in> set (rmatch ic r p s)" using Cons by simp
    show ?thesis
    proof (cases "length (snd (snd x)) < length s")
      case True
      with Cons "1.prems" have "m = fst (snd x) \<or> m \<in> set (re_findall ic r (prev_after p (fst x)) (snd (snd x)))"
        by (simp add: re_findall.simps [of ic r p s])
      with "1.IH"(2) [OF Cons True] hd show ?thesis by blast
    next
      case False
      show ?thesis
      proof (cases s)
        case Nil
        with False Cons "1.prems" have "m = fst (snd x)"
          by (simp add: re_findall.simps [of ic r p s])
        with hd show ?thesis by blast
      next
        case Cons': (Cons c cs)
        with False Cons "1.prems" have "m = fst (snd x) \<or> m \<in> set (re_findall ic r (Some c) cs)"
          by (simp add: re_findall.simps [of ic r p s])
        with "1.IH"(3) [OF Cons False Cons'] hd show ?thesis by blast
      qed
    qed
  qed
qed

lemma date_matches_shape:
  "m \<in> set (date_matches text) \<Longrightarrow>
     \<exists>day month year. m = [day, month, year] \<and> month \<in> set month_names \<and> py_int year \<noteq> None"
  unfolding date_matches_def
  by (drule re_findall_caps) (auto dest: rmatch_date_pattern)


section \<open>The date bonus\<close>

lemma month_get_late:
  "month_get month \<ge> 10 \<longleftrightarrow> month \<in> {''October'', ''November'', ''December''}"
  by (simp add: month_get_def month_mapping_def)

lemma analyze_text_date_found:
  "date_found (analyze_text text) =
     (case date_matches text of [] \<Rightarrow> None
      | m # _ \<Rightarrow> (case m of [day, month, year] \<Rightarrow> Some (day @ '' '' @ month @ '' '' @ year) | _ \<Rightarrow> None))"
  by (auto simp: analyze_text_def verdict_fields check_date_def parse_date_def Let_def
        check_fairfax_def check_churchill_def analysis_init_def split: list.splits option.splits)

lemma parse_date_malformed: "length m \<noteq> 3 \<Longrightarrow> parse_date m a = a"
  by (auto simp: parse_date_def split: list.splits)

lemma date_examples:
  "relevance_score (analyze_text ''15 November 1946'') = 30"
  "relevance_score (analyze_text ''15 November 1945'') = 0"
  "relevance_score (analyze_text ''15 March 1946'') = 0"
  "relevance_score (analyze_text ''15 March 1946, then 15 November 1946'') = 0"
  by code_simp+

text \<open>
  Claim C3. \<open>analyze_text\<close> looks at the first date match only. Without a match no date
  is recorded and nothing is added to the score. With one, its day, month and year are
  recorded, the year always reads as an integer, and 30 is added exactly when that year is
  1946 and the month is October, November or December. A capture that is not a triple
  leaves the analysis as it was. So ``15 November 1946'' earns the 30, while
  ``15 November 1945'', ``15 March 1946'', and a text whose first date is 15 March 1946
  and whose second is 15 November 1946, do not.
\<close>

theorem analyze_text_date_bonus:
  "(date_matches text = [] \<longrightarrow>
      date_found (analyze_text text) = None \<and>
      relevance_score (analyze_text text) =
        relevance_score (check_fairfax text (check_churchill text analysis_init))) \<and>
   (\<forall>m ms. date_matches text = m # ms \<longrightarrow>
      (\<exists>day month year y.
         m = [day, month, year] \<and> py_int year = Some y \<and>
         date_found (analyze_text text) = Some (day @ '' '' @ month @ '' '' @ year) \<and>
         relevance_score (analyze_text text) =
           relevance_score (check_fairfax text (check_churchill text analysis_init)) +
           (if y = 1946 \<and> month \<in> {''October'', ''November'', ''December''} then 30 else 0))) \<and>
   (\<forall>m a. length m \<noteq> 3 \<longrightarrow> parse_date m a = a) \<and>
   relevance_score (analyze_text ''15 November 1946'') = 30 \<and>
   relevance_score (analyze_text ''15 November 1945'') = 0 \<and>
   relevance_score (analyze_text ''15 March 1946'') = 0 \<and>
   relevance_score (analyze_text ''15 March 1946, then 15 November 1946'') = 0"
proof -
  have none: "date_matches text = [] \<longrightarrow>
      date_found (analyze_text text) = None \<and>
      relevance_score (analyze_text text) =
        relevance_score (check_fairfax text (check_churchill text analysis_init))"
    by (simp add: analyze_text_date_found analyze_text_score entity_state)
  have some: "\<exists>day month year y.
         m = [day, month, year] \<and> py_int year = Some y \<and>
         date_found (analyze_text text) = Some (day @ '' '' @ month @ '' '' @ year) \<and>
         relevance_score (analyze_text text) =
           relevance_score (check_fairfax text (check_churchill text analysis_init)) +
           (if y = 1946 \<and> month \<in> {''October'', ''November'', ''December''} then 30 else 0)"
    if m: "date_matches text = m # ms" for m ms
  proof -
    have "m \<in> set (date_matches text)" using m by simp
    then obtain day month year where s: "m = [day, month, year]" and y: "py_int year \<noteq> None"
      using date_matches_shape by blast
    from y obtain y' where y': "py_int year = Some y'" by auto
    have b: "date_bonus m = (if y' = 1946 \<and> month \<in> {''October'', ''November'', ''December''} then 30 else 0)"
      using s y' month_get_late [of month] by (simp add: date_bonus_def)
    have "date_found (analyze_text text) = Some (day @ '' '' @ month @ '' '' @ year)"
      using m s by (simp add: analyze_text_date_found)
    moreover have "relevance_score (analyze_text text) =
           relevance_score (check_fairfax text (check_churchill text analysis_init)) +
           (if y' = 1946 \<and> month \<in> {''October'', ''November'', ''December''} then 30 else 0)"
      using m b by (simp add: analyze_text_score entity_state)
    ultimately show ?thesis using s y' by blast
  qed
  show ?thesis
    using none some parse_date_malformed date_examples by blast
qed

lemma date_matches_example:
  "date_matches ''15 November 1946'' = [[''15'', ''November'', ''1946'']]"
  by code_simp

lemma date_matches_none: "date_matches ''no date'' = []"
  by code_simp

theorem analyze_text_date_bonus_witness:
  "date_matches ''15 November 1946'' = [''15'', ''November'', ''1946''] # [] \<and>
   date_found (analyze_text ''15 November 1946'') = Some ''15 November 1946'' \<and>
   date_matches ''no date'' = [] \<and> date_found (analyze_text ''no date'') = None \<and>
   length ([] :: string list) \<noteq> 3 \<and> parse_date [] analysis_init = analysis_init"
proof -
  note t1 = analyze_text_date_bonus [of "''15 November 1946''"]
  note t2 = analyze_text_date_bonus [of "''no date''"]
  from t1 date_matches_example
  have "\<exists>day month year y.
         [''15'', ''November'', ''1946''] = [day, month, year] \<and> py_int year = Some y \<and>
         date_found (analyze_text ''15 November 1946'') = Some (day @ '' '' @ month @ '' '' @ year)"
    by blast
  then have a: "date_found (analyze_text ''15 November 1946'') = Some ''15 November 1946''"
    by auto
  from t2 date_matches_none have b: "date_found (analyze_text ''no date'') = None"
    by blast
  from t1 have c: "parse_date [] analysis_init = analysis_init"
    by simp
  show ?thesis
    using a b c date_matches_example date_matches_none by simp
qed

section \<open>Prioritization in download_documents\<close>

lemma insort_key_front: "\<forall>y\<in>set ys. f x \<le> f y \<Longrightarrow> insort_key f x ys = x # ys"
  by (cases ys) auto

lemma insort_key_behind:
  "\<forall>y\<in>set as. f y < f x \<Longrightarrow> \<forall>y\<in>set bs. f x \<le> f y \<Longrightarrow>
     insort_key f x (as @ bs) = as @ x # bs"
  by (induction as) (auto simp: insort_key_front)

lemma sort_key_two_classes:
  fixes f :: "'a \<Rightarrow> nat"
  assumes "\<And>x. f x \<le> 1"
  shows "sort_key f xs = filter (\<lambda>x. f x = 0) xs @ filter (\<lambda>x. f x \<noteq> 0) xs"
proof (induction xs)
  case Nil
  then show ?case by simp
next
  case (Cons x xs)
  let ?as = "filter (\<lambda>x. f x = 0) xs" and ?bs = "filter (\<lambda>x. f x \<noteq> 0) xs"
  have step: "sort_key f (x # xs) = insort_key f x (?as @ ?bs)"
    using Cons.IH by simp
  show ?case
  proof (cases "f x = 0")
    case True
    then have "insort_key f x (?as @ ?bs) = x # ?as @ ?bs"
      by (intro insort_key_front) simp
    with step True show ?thesis by simp
  next
    case False
    with assms [of x] have fx: "f x = 1" by simp
    have "\<forall>y\<in>set ?bs. f x \<le> f y"
    proof
      fix y assume "y \<in> set ?bs"
      then have "f y \<noteq> 0" by simp
      with fx show "f x \<le> f y" by simp
    qed
    moreover have "\<forall>y\<in>set ?as. f y < f x" using fx by simp
    ultimately have "insort_key f x (?as @ ?bs) = ?as @ x # ?bs"
      by (rule insort_key_behind [rotated])
    with step False show ?thesis by simp
  qed
qed

lemma insort_key_decorated:
  "insort_key fst (f x, x) (map (\<lambda>y. (f y, y)) ys) = map (\<lambda>y. (f y, y)) (insort_key f x ys)"
  by (induction ys) auto

lemma sort_key_decorated:
  "sort_key fst (map (\<lambda>x. (f x, x)) xs) = map (\<lambda>x. (f x, x)) (sort_key f xs)"
  by (induction xs) (auto simp: insort_key_decorated)

lemma any_month_errors: "any_month months d = Inl err \<Longrightarrow> err = TypeError"
  by (induction months) (auto split: sum.splits bool.splits elim: py_in.elims)

lemma priority_key_errors: "priority_key x = Inl err \<Longrightarrow> err = TypeError"
  by (auto simp: priority_key_def split: sum.splits bool.splits
        dest: any_month_errors elim: py_in.elims)

lemma priority_key_le: "key_value x \<le> 1"
  by (auto simp: key_value_def priority_key_def split: sum.splits bool.splits)

lemma keyed_total:
  "\<forall>x\<in>set rs. \<forall>err. priority_key x \<noteq> Inl err \<Longrightarrow>
     keyed rs = Inr (map (\<lambda>x. (key_value x, x)) rs)"
proof (induction rs)
  case Nil
  then show ?case by simp
next
  case (Cons r rs)
  from Cons.prems obtain k where k: "priority_key r = Inr k"
    by (cases "priority_key r") auto
  from Cons.prems have "keyed rs = Inr (map (\<lambda>x. (key_value x, x)) rs)"
    by (intro Cons.IH) simp
  with k show ?case by (simp add: key_value_def)
qed

lemma keyed_raises:
  "\<exists>x\<in>set rs. priority_key x = Inl TypeError \<Longrightarrow> keyed rs = Inl TypeError"
proof (induction rs)
  case Nil
  then show ?case by simp
next
  case (Cons r rs)
  show ?case
  proof (cases "priority_key r")
    case (Inl err)
    then show ?thesis using priority_key_errors [of r err] by simp
  next
    case (Inr k)
    with Cons.prems have "\<exists>x\<in>set rs. priority_key x = Inl TypeError" by auto
    then have "keyed rs = Inl TypeError" by (rule Cons.IH)
    with Inr show ?thesis by simp
  qed
qed

lemma key_value_zero:
  "priority_key x \<noteq> Inl TypeError \<Longrightarrow> key_value x = 0 \<longleftrightarrow> priority_key x = Inr 0"
  using priority_key_errors [of x]
  by (cases "priority_key x") (auto simp: key_value_def)

lemma prioritized_partition:
  assumes "\<forall>x\<in>set rs. priority_key x \<noteq> Inl TypeError"
  shows "prioritized_results rs =
           Inr (filter (\<lambda>x. priority_key x = Inr 0) rs @ filter (\<lambda>x. priority_key x \<noteq> Inr 0) rs)"
proof -
  from assms have "\<forall>x\<in>set rs. \<forall>err. priority_key x \<noteq> Inl err"
    using priority_key_errors by blast
  then have "keyed rs = Inr (map (\<lambda>x. (key_value x, x)) rs)" by (rule keyed_total)
  then have "prioritized_results rs = Inr (sort_key key_value rs)"
    by (simp add: prioritized_results_def sort_key_decorated comp_def)
  also have "sort_key key_value rs =
      filter (\<lambda>x. key_value x = 0) rs @ filter (\<lambda>x. key_value x \<noteq> 0) rs"
    by (rule sort_key_two_classes) (rule priority_key_le)
  also have "filter (\<lambda>x. key_value x = 0) rs = filter (\<lambda>x. priority_key x = Inr 0) rs"
    using assms by (intro filter_cong refl) (simp add: key_value_zero)
  also have "filter (\<lambda>x. key_value x \<noteq> 0) rs = filter (\<lambda>x. priority_key x \<noteq> Inr 0) rs"
    using assms by (intro filter_cong refl) (simp add: key_value_zero)
  finally show ?thesis .
qed

lemma priority_key_string:
  assumes "date x = JStr d"
  shows "priority_key x \<noteq> Inl TypeError"
    and "priority_key x = Inr 0 \<longleftrightarrow>
           contains ''1946'' d \<and>
           (contains ''Oct'' d \<or> contains ''Nov'' d \<or> contains ''December'' d)"
  using assms by (auto simp: priority_key_def split: bool.splits)

lemma priority_examples:
  "priority_key (dated ''3 Nov 1946'') = Inr 0"
  "priority_key (dated ''1 Jan 1947'') = Inr 1"
  "priority_key (dated ''20 Dec 1946'') = Inr 1"
  by (simp_all add: priority_key_def dated_def)

lemma prioritized_example:
  "prioritized_results [dated ''3 Nov 1946'', dated ''1 Jan 1947'', dated ''20 Dec 1946'']
     = Inr [dated ''3 Nov 1946'', dated ''1 Jan 1947'', dated ''20 Dec 1946'']"
  by (simp add: prioritized_results_def priority_examples)

text \<open>
  Claim C2 as stated fails on its own example: the date ``20 Dec 1946'' contains none of
  \<open>Oct\<close>, \<open>Nov\<close>, \<open>December\<close>, so its record keeps its place behind the 1947 record.
\<close>

theorem prioritized_results_example:
  "prioritized_results [dated ''3 Nov 1946'', dated ''1 Jan 1947'', dated ''20 Dec 1946'']
     = Inr [dated ''3 Nov 1946'', dated ''1 Jan 1947'', dated ''20 Dec 1946''] \<and>
   prioritized_results [dated ''3 Nov 1946'', dated ''1 Jan 1947'', dated ''20 Dec 1946'']
     \<noteq> Inr [dated ''3 Nov 1946'', dated ''20 Dec 1946'', dated ''1 Jan 1947'']"
  by (simp add: prioritized_example) (simp add: dated_def)

text \<open>
  Claim C2, amended. \<open>download_documents\<close> sorts the accumulated records stably by a
  two-valued key: the records whose date contains \<open>1946\<close> and one of \<open>Oct\<close>, \<open>Nov\<close>,
  \<open>December\<close> come first, then all others, each part in accumulation order. This holds
  whenever no key raises, as is the case when every date is a string. For the dates
  ``3 Nov 1946'', ``1 Jan 1947'', ``20 Dec 1946'' only the first record matches, and the
  sorted order is the given order.
\<close>

theorem prioritized_results_partition:
  "((\<forall>x\<in>set rs. priority_key x \<noteq> Inl TypeError) \<longrightarrow>
      prioritized_results rs =
        Inr (filter (\<lambda>x. priority_key x = Inr 0) rs @ filter (\<lambda>x. priority_key x \<noteq> Inr 0) rs)) \<and>
   (date x = JStr d \<longrightarrow>
      priority_key x \<noteq> Inl TypeError \<and>
      (priority_key x = Inr 0 \<longleftrightarrow>
         contains ''1946'' d \<and>
         (contains ''Oct'' d \<or> contains ''Nov'' d \<or> contains ''December'' d))) \<and>
   priority_key (dated ''3 Nov 1946'') = Inr 0 \<and>
   priority_key (dated ''1 Jan 1947'') \<noteq> Inr 0 \<and>
   priority_key (dated ''20 Dec 1946'') \<noteq> Inr 0 \<and>
   prioritized_results [dated ''3 Nov 1946'', dated ''1 Jan 1947'', dated ''20 Dec 1946'']
     = Inr [dated ''3 Nov 1946'', dated ''1 Jan 1947'', dated ''20 Dec 1946'']"
  using prioritized_partition [of rs] priority_key_string [of x d] priority_examples
    prioritized_example
  by simp

theorem prioritized_results_partition_witness:
  "date (dated ''3 Nov 1946'') = JStr ''3 Nov 1946'' \<and>
   priority_key (dated ''3 Nov 1946'') \<noteq> Inl TypeError \<and>
   priority_key (dated ''1 Jan 1947'') \<noteq> Inl TypeError \<and>
   priority_key (dated ''3 Nov 1946'') = Inr 0 \<and>
   prioritized_results [dated ''1 Jan 1947'', dated ''3 Nov 1946'']
     = Inr [dated ''3 Nov 1946'', dated ''1 Jan 1947'']"
proof -
  have d: "date (dated ''3 Nov 1946'') = JStr ''3 Nov 1946''"
    by (simp add: dated_def)
  have k: "priority_key (dated ''3 Nov 1946'') \<noteq> Inl TypeError"
    "priority_key (dated ''1 Jan 1947'') \<noteq> Inl TypeError"
    by (simp_all add: priority_examples)
  from k have h: "\<forall>x\<in>set [dated ''1 Jan 1947'', dated ''3 Nov 1946'']. priority_key x \<noteq> Inl TypeError"
    by simp
  from h prioritized_results_partition [of "[dated ''1 Jan 1947'', dated ''3 Nov 1946'']"
      "dated ''3 Nov 1946''" "''3 Nov 1946''"]
  have "prioritized_results [dated ''1 Jan 1947'', dated ''3 Nov 1946''] =
      Inr (filter (\<lambda>x. priority_key x = Inr 0) [dated ''1 Jan 1947'', dated ''3 Nov 1946''] @
           filter (\<lambda>x. priority_key x \<noteq> Inr 0) [dated ''1 Jan 1947'', dated ''3 Nov 1946''])"
    by blast
  then have p: "prioritized_results [dated ''1 Jan 1947'', dated ''3 Nov 1946'']
     = Inr [dated ''3 Nov 1946'', dated ''1 Jan 1947'']"
    by (simp add: priority_examples)
  show ?thesis using d k p priority_examples(1) by simp
qed

section \<open>Letter extraction on single documents\<close>

lemma join_one: "join sep [x] = x"
  by simp

lemma letter_text_likely:
  "likely_correspondence (analyze_text (join [CHR 0x0A] letter_lines))"
  by code_simp

lemma letter_text_fields:
  "extract_fields (join page_sep [join [CHR 0x0A] letter_lines]) =
     \<lparr>lc_date = Some ''12 November 1946'', lc_salutation = Some ''Dear Winston,'',
      lc_signature = Some ''Yours sincerely,'', lc_body = Some ''It was good to see you.''\<rparr>"
  by code_simp

text \<open>
  Claim C7. For a likely-correspondence document whose text consists of the lines
  ``12 November 1946'', ``Dear Winston,'', ``It was good to see you.'',
  ``Yours sincerely,'', ``Bryan'', \<open>extract_letter_content\<close> yields one letter, with
  date ``12 November 1946'', salutation ``Dear Winston,'', body
  ``It was good to see you.'' and signature ``Yours sincerely,''.
\<close>

theorem extract_letter_content_example:
  "likely_correspondence (analyze_text (join [CHR 0x0A] letter_lines)) \<and>
   map extracted_content (extract_letter_content [one_page (join [CHR 0x0A] letter_lines)]) =
     [\<lparr>lc_date = Some ''12 November 1946'', lc_salutation = Some ''Dear Winston,'',
       lc_signature = Some ''Yours sincerely,'', lc_body = Some ''It was good to see you.''\<rparr>]"
proof -
  let ?t = "join [CHR 0x0A] letter_lines"
  have "extract_doc (one_page ?t) =
     Some \<lparr>letter_archive = ''Churchill Archives Centre'', letter_reference = JStr ''Unknown'',
           letter_title = JStr ''Untitled'', letter_date = JStr [],
           extracted_content = extract_fields (join page_sep [?t]),
           letter_score = relevance_score (analyze_text ?t), full_text = join page_sep [?t]\<rparr>"
    using letter_text_likely
    by (simp add: extract_doc_def one_page_def Let_def letter_text_fields content_len_def del: join.simps)
  then show ?thesis
    using letter_text_likely
    by (simp add: extract_letter_content_def List.map_filter_def letter_text_fields del: join.simps)
qed

lemma scan_line_date:
  assumes "strip raw \<noteq> []" and "unset (lc_date (content st))"
    and "matches False line_date_pattern (strip raw)"
  shows "scan_line raw st = st\<lparr>content := (content st)\<lparr>lc_date := Some (strip raw)\<rparr>\<rparr>"
  using assms by (simp add: scan_line_def Let_def)

lemma in_body_example:
  "extract_fields ''Dear Winston,\<newline>We met on 3 May 1946\<newline>Yours'' =
     \<lparr>lc_date = Some ''We met on 3 May 1946'', lc_salutation = Some ''Dear Winston,'',
      lc_signature = Some ''Yours'', lc_body = None\<rparr>"
  by code_simp

text \<open>
  Claim C10. The date check of \<open>extract_letter_content\<close> comes first in the chain and
  does not look at \<open>in_body\<close>: a non-blank line that matches the date pattern while no
  date is recorded becomes the date, whatever the state, and the body buffer and
  \<open>in_body\<close> stay as they were. So a dated line between salutation and signature is taken
  as the date and is missing from the body.
\<close>

theorem scan_line_date_in_body:
  "(strip raw \<noteq> [] \<and> unset (lc_date (content st)) \<and> matches False line_date_pattern (strip raw) \<longrightarrow>
      lc_date (content (scan_line raw st)) = Some (strip raw) \<and>
      body_lines (scan_line raw st) = body_lines st \<and>
      in_body (scan_line raw st) = in_body st) \<and>
   extract_fields ''Dear Winston,\<newline>We met on 3 May 1946\<newline>Yours'' =
     \<lparr>lc_date = Some ''We met on 3 May 1946'', lc_salutation = Some ''Dear Winston,'',
      lc_signature = Some ''Yours'', lc_body = None\<rparr>"
  using scan_line_date [of raw st] in_body_example by simp

lemma after_salutation:
  "scan_line ''Dear Winston,'' scan_init =
     scan_init\<lparr>content := (content scan_init)\<lparr>lc_salutation := Some ''Dear Winston,''\<rparr>, in_body := True\<rparr>"
  by code_simp

lemma dated_line_facts:
  "strip ''We met on 3 May 1946'' = ''We met on 3 May 1946''"
  "matches False line_date_pattern ''We met on 3 May 1946''"
  by code_simp+

theorem scan_line_date_in_body_witness:
  "in_body (scan_line ''Dear Winston,'' scan_init) \<and>
   strip ''We met on 3 May 1946'' \<noteq> [] \<and>
   unset (lc_date (content (scan_line ''Dear Winston,'' scan_init))) \<and>
   matches False line_date_pattern (strip ''We met on 3 May 1946'') \<and>
   lc_date (content (scan_line ''We met on 3 May 1946'' (scan_line ''Dear Winston,'' scan_init))) =
     Some ''We met on 3 May 1946'' \<and>
   body_lines (scan_line ''We met on 3 May 1946'' (scan_line ''Dear Winston,'' scan_init)) = []"
proof -
  have a: "in_body (scan_line ''Dear Winston,'' scan_init)"
    and b: "unset (lc_date (content (scan_line ''Dear Winston,'' scan_init)))"
    and c: "body_lines (scan_line ''Dear Winston,'' scan_init) = []"
    by (simp_all add: after_salutation) (simp_all add: scan_init_def unset_def)
  show ?thesis
    using a b c dated_line_facts
      scan_line_date_in_body [of "''We met on 3 May 1946''" "scan_line ''Dear Winston,'' scan_init"]
    by simp
qed

section \<open>Which documents yield letters\<close>

lemma set_extract_letter_content:
  "set (extract_letter_content ocr_results) = {l. \<exists>doc\<in>set ocr_results. extract_doc doc = Some l}"
  by (force simp: extract_letter_content_def List.map_filter_def image_iff)

lemma extract_doc_Some:
  assumes "extract_doc doc = Some l"
  shows "\<exists>a. doc_analysis doc = Some a \<and> likely_correspondence a \<and>
             letter_score l = relevance_score a \<and>
             full_text l = join page_sep (map page_text (pages doc)) \<and>
             extracted_content l = extract_fields (full_text l) \<and>
             2 \<le> content_len (extracted_content l)"
proof (cases "doc_analysis doc")
  case None
  with assms show ?thesis by (simp add: extract_doc_def)
next
  case (Some a)
  with assms have l: "likely_correspondence a"
    and c: "2 \<le> content_len (extract_fields (join page_sep (map page_text (pages doc))))"
    by (auto simp: extract_doc_def Let_def split: if_splits)
  with assms Some have "l = \<lparr>letter_archive = ocr_archive doc, letter_reference = ocr_reference doc,
        letter_title = ocr_title doc, letter_date = ocr_date doc,
        extracted_content = extract_fields (join page_sep (map page_text (pages doc))),
        letter_score = relevance_score a,
        full_text = join page_sep (map page_text (pages doc))\<rparr>"
    by (simp add: extract_doc_def Let_def)
  with Some l c show ?thesis by simp
qed

lemma process_doc_text:
  "map page_text (pages (process_doc available e doc)) = map (process_image available e) (images doc)"
  by (simp add: process_doc_def Let_def comp_def)

lemma process_doc_analysis:
  "doc_analysis (process_doc available e doc) = Some a \<Longrightarrow>
     a = analyze_text (join page_sep (map (process_image available e) (images doc)))"
  by (simp add: process_doc_def Let_def split: if_splits)

lemma extract_processed:
  assumes "extract_doc (process_doc available e doc) = Some l"
  shows "full_text l = join page_sep (map (process_image available e) (images doc)) \<and>
         (\<exists>pat\<in>set fairfax_patterns. matches True pat (full_text l))"
proof -
  from extract_doc_Some [OF assms] obtain a where
    a: "doc_analysis (process_doc available e doc) = Some a" and l: "likely_correspondence a"
    and t: "full_text l = join page_sep (map page_text (pages (process_doc available e doc)))"
    by blast
  from t have t': "full_text l = join page_sep (map (process_image available e) (images doc))"
    by (simp only: process_doc_text)
  from process_doc_analysis [OF a] l t' have "likely_correspondence (analyze_text (full_text l))"
    by simp
  then have "any_pattern fairfax_patterns (full_text l)"
    by (simp add: analyze_text_likely)
  with t' show ?thesis by (simp add: any_pattern_iff)
qed

text \<open>
  Claim C6. Every letter that \<open>extract_letter_content\<close> returns was built from a
  document of its input whose analysis says \<open>likely_correspondence\<close>, and has at least two
  of the four fields. On the results of \<open>process_ocr\<close>, some Fairfax pattern matches the
  OCR text of every returned letter; a document whose OCR text no Fairfax pattern matches
  yields no letter.
\<close>

theorem extracted_letters_sound:
  "(\<forall>l\<in>set (extract_letter_content ocr_results).
      \<exists>doc\<in>set ocr_results. \<exists>a.
        doc_analysis doc = Some a \<and> likely_correspondence a \<and> extract_doc doc = Some l \<and>
        2 \<le> content_len (extracted_content l)) \<and>
   (\<forall>l\<in>set (extract_letter_content (process_ocr available e docs)).
      \<exists>doc\<in>set docs.
        extract_doc (process_doc available e doc) = Some l \<and>
        full_text l = join page_sep (map (process_image available e) (images doc)) \<and>
        (\<exists>pat\<in>set fairfax_patterns. matches True pat (full_text l))) \<and>
   (\<not> (\<exists>pat\<in>set fairfax_patterns.
          matches True pat (join page_sep (map (process_image available e) (images doc)))) \<longrightarrow>
      extract_doc (process_doc available e doc) = None \<and>
      extract_letter_content (process_ocr available e [doc]) = [])"
proof (intro conjI ballI impI)
  fix l assume "l \<in> set (extract_letter_content ocr_results)"
  then obtain doc where "doc \<in> set ocr_results" and "extract_doc doc = Some l"
    by (auto simp: set_extract_letter_content)
  with extract_doc_Some [of doc l]
  show "\<exists>doc\<in>set ocr_results. \<exists>a.
        doc_analysis doc = Some a \<and> likely_correspondence a \<and> extract_doc doc = Some l \<and>
        2 \<le> content_len (extracted_content l)"
    by blast
next
  fix l assume "l \<in> set (extract_letter_content (process_ocr available e docs))"
  then obtain doc where "doc \<in> set docs" and "extract_doc (process_doc available e doc) = Some l"
    by (auto simp: set_extract_letter_content process_ocr_def)
  with extract_processed [of available e doc l]
  show "\<exists>doc\<in>set docs.
        extract_doc (process_doc available e doc) = Some l \<and>
        full_text l = join page_sep (map (process_image available e) (images doc)) \<and>
        (\<exists>pat\<in>set fairfax_patterns. matches True pat (full_text l))"
    by blast
next
  assume n: "\<not> (\<exists>pat\<in>set fairfax_patterns.
          matches True pat (join page_sep (map (process_image available e) (images doc))))"
  show none: "extract_doc (process_doc available e doc) = None"
  proof (cases "extract_doc (process_doc available e doc)")
    case None
    then show ?thesis .
  next
    case (Some l)
    with extract_processed [of available e doc l] n show ?thesis by metis
  qed
  show "extract_letter_content (process_ocr available e [doc]) = []"
    using none by (simp add: extract_letter_content_def process_ocr_def List.map_filter_def)
qed

lemma reads_text:
  "join page_sep (map (process_image True (reads t)) (images scanned)) = t"
  by (simp add: process_image_def reads_def scanned_def get_or_def)

lemma no_fairfax_example: "\<not> any_pattern fairfax_patterns ''Dear Winston, 12 November 1946''"
  by code_simp

theorem extracted_letters_sound_witness:
  "(\<exists>l. l \<in> set (extract_letter_content [one_page (join [CHR 0x0A] letter_lines)]) \<and>
        extract_doc (one_page (join [CHR 0x0A] letter_lines)) = Some l \<and>
        2 \<le> content_len (extracted_content l)) \<and>
   (\<exists>l. l \<in> set (extract_letter_content
                    (process_ocr True (reads (join [CHR 0x0A] letter_lines)) [scanned])) \<and>
        full_text l = join [CHR 0x0A] letter_lines \<and>
        (\<exists>pat\<in>set fairfax_patterns. matches True pat (full_text l))) \<and>
   \<not> (\<exists>pat\<in>set fairfax_patterns. matches True pat ''Dear Winston, 12 November 1946'') \<and>
   extract_doc (process_doc True (reads ''Dear Winston, 12 November 1946'') scanned) = None"
proof -
  let ?t = "join [CHR 0x0A] letter_lines"
  have c: "2 \<le> content_len (extract_fields (join page_sep [?t]))"
    by (simp add: letter_text_fields content_len_def del: join.simps)
  have "extract_doc (one_page ?t) \<noteq> None"
    using letter_text_likely c by (simp add: extract_doc_def one_page_def Let_def del: join.simps)
  then obtain l where l: "extract_doc (one_page ?t) = Some l" by auto
  then have m: "l \<in> set (extract_letter_content [one_page ?t])"
    by (simp add: set_extract_letter_content)
  have p1: "\<exists>l. l \<in> set (extract_letter_content [one_page ?t]) \<and>
        extract_doc (one_page ?t) = Some l \<and> 2 \<le> content_len (extracted_content l)"
    using m extracted_letters_sound [of "[one_page ?t]" True "reads ?t" "[scanned]" scanned]
    by auto
  have j: "join page_sep [?t] = ?t" by (rule join_one)
  have pd: "process_doc True (reads ?t) scanned = one_page ?t"
    by (simp add: process_doc_def one_page_def scanned_def process_image_def reads_def get_or_def
          Let_def j del: join.simps)
  then have m2: "l \<in> set (extract_letter_content (process_ocr True (reads ?t) [scanned]))"
    using m by (simp add: process_ocr_def)
  have p2: "\<exists>l. l \<in> set (extract_letter_content (process_ocr True (reads ?t) [scanned])) \<and>
        full_text l = ?t \<and> (\<exists>pat\<in>set fairfax_patterns. matches True pat (full_text l))"
    using m2 extracted_letters_sound [of "[one_page ?t]" True "reads ?t" "[scanned]" scanned]
      reads_text [of ?t]
    by (metis empty_iff empty_set set_ConsD)
  have n: "\<not> (\<exists>pat\<in>set fairfax_patterns. matches True pat ''Dear Winston, 12 November 1946'')"
    using no_fairfax_example by (simp add: any_pattern_iff)
  have p3: "extract_doc (process_doc True (reads ''Dear Winston, 12 November 1946'') scanned) = None"
    using n extracted_letters_sound [of "[]" True "reads ''Dear Winston, 12 November 1946''" "[]" scanned]
    by (simp only: reads_text) simp
  show ?thesis using p1 p2 n p3 by blast
qed

section \<open>Retries in download_document_image\<close>

lemma expo_numeral:
  "expo (numeral k) y =
     (if 2 \<le> y then expo (pred_numeral k) (y / 2) + 1
      else if y < 1 then expo (pred_numeral k) (2 * y) - 1 else 0)"
  by (simp add: numeral_eq_Suc)

lemmas double_eval = double_def expo_numeral round_half_even_def pow2_def Let_def


















section \<open>Rate limiting\<close>

lemma rate_limit_stamp:
  "last_request_time (fst (rate_limit c w)) = clock (snd (rate_limit c w))"
  "name (fst (rate_limit c w)) = name c"
  "endpoints (fst (rate_limit c w)) = endpoints c"
  by (simp_all add: rate_limit_def Let_def)

lemma rate_limit_exact:
  "exact_limit c w \<Longrightarrow>
     clock (snd (rate_limit c w)) = max (clock w) (last_request_time c + RATE_LIMIT_DELAY)"
  by (auto simp: exact_limit_def rate_limit_def sleep_def Let_def max_def split: if_splits)

lemma rate_limit_no_sleep:
  "exact_limit c w \<Longrightarrow> last_request_time c + RATE_LIMIT_DELAY \<le> clock w \<Longrightarrow>
     snd (rate_limit c w) = w"
  by (auto simp: exact_limit_def rate_limit_def Let_def split: if_splits)

lemma perform_client: "fst (perform e rq c w) = fst (rate_limit c w)"
  by (cases rq)
     (simp_all add: search_def get_document_def download_document_image_def split_beta Let_def
        split: option.splits sum.splits del: download_attempts.simps)

lemma perform_stamp:
  "exact_limit c w \<Longrightarrow>
     last_request_time (fst (perform e rq c w)) =
       max (clock w) (last_request_time c + RATE_LIMIT_DELAY)"
  by (simp add: perform_client rate_limit_stamp rate_limit_exact)

lemma perform_separated:
  "exact_limit c w \<Longrightarrow>
     last_request_time c + RATE_LIMIT_DELAY \<le> last_request_time (fst (perform e rq c w))"
  by (simp add: perform_stamp)

lemma delay_nonneg: "0 \<le> RATE_LIMIT_DELAY"
  by (simp add: RATE_LIMIT_DELAY_def)

lemma stamps_Cons:
  "stamps e ((d, rq) # calls) c w =
     last_request_time (fst (perform e rq c (pause d w))) #
     stamps e calls (fst (perform e rq c (pause d w))) (snd (perform e rq c (pause d w)))"
  by (simp add: split_beta)

lemma exact_run_Cons:
  "exact_run e ((d, rq) # calls) c w \<longleftrightarrow>
     exact_limit c (pause d w) \<and>
     exact_run e calls (fst (perform e rq c (pause d w))) (snd (perform e rq c (pause d w)))"
  by (simp add: split_beta)

lemma stamps_length: "length (stamps e calls c w) = length calls"
  by (induction calls arbitrary: c w) (auto simp: split_beta)

lemma stamps_lower:
  "exact_run e calls c w \<Longrightarrow> t \<in> set (stamps e calls c w) \<Longrightarrow>
     last_request_time c + RATE_LIMIT_DELAY \<le> t"
proof (induction calls arbitrary: c w)
  case Nil
  then show ?case by simp
next
  case (Cons call calls)
  obtain d rq where call: "call = (d, rq)" by (cases call)
  let ?c1 = "fst (perform e rq c (pause d w))"
  let ?w1 = "snd (perform e rq c (pause d w))"
  from Cons.prems(1) call have ex: "exact_limit c (pause d w)" and run: "exact_run e calls ?c1 ?w1"
    by (simp_all only: exact_run_Cons)
  have sep: "last_request_time c + RATE_LIMIT_DELAY \<le> last_request_time ?c1"
    using ex by (rule perform_separated)
  from Cons.prems(2) call have "t = last_request_time ?c1 \<or> t \<in> set (stamps e calls ?c1 ?w1)"
    by (simp only: stamps_Cons set_simps insert_iff)
  then show ?case
  proof
    assume "t = last_request_time ?c1"
    with sep show ?thesis by simp
  next
    assume "t \<in> set (stamps e calls ?c1 ?w1)"
    with run have "last_request_time ?c1 + RATE_LIMIT_DELAY \<le> t" by (rule Cons.IH)
    with sep delay_nonneg show ?thesis by linarith
  qed
qed

lemma stamps_separated:
  "exact_run e calls c w \<Longrightarrow> Suc i < length (stamps e calls c w) \<Longrightarrow>
     stamps e calls c w ! i + RATE_LIMIT_DELAY \<le> stamps e calls c w ! Suc i"
proof (induction calls arbitrary: c w i)
  case Nil
  then show ?case by simp
next
  case (Cons call calls)
  obtain d rq where call: "call = (d, rq)" by (cases call)
  let ?c1 = "fst (perform e rq c (pause d w))"
  let ?w1 = "snd (perform e rq c (pause d w))"
  let ?rest = "stamps e calls ?c1 ?w1"
  from Cons.prems(1) call have run: "exact_run e calls ?c1 ?w1"
    by (simp only: exact_run_Cons)
  have eq: "stamps e (call # calls) c w = last_request_time ?c1 # ?rest"
    unfolding call by (rule stamps_Cons)
  show ?case
  proof (cases i)
    case 0
    with Cons.prems(2) eq have "0 < length ?rest" by simp
    then have "?rest ! 0 \<in> set ?rest" by (rule nth_mem)
    with run have "last_request_time ?c1 + RATE_LIMIT_DELAY \<le> ?rest ! 0" by (rule stamps_lower)
    with 0 eq show ?thesis by simp
  next
    case (Suc j)
    with Cons.prems(2) eq have "Suc j < length ?rest" by simp
    with run have "?rest ! j + RATE_LIMIT_DELAY \<le> ?rest ! Suc j" by (rule Cons.IH)
    with Suc eq show ?thesis by simp
  qed
qed

lemma store_client_other:
  "j \<noteq> i \<Longrightarrow> api_clients (store_client i c ag) ! j = api_clients ag ! j"
  by (simp add: store_client_def)

lemma float_stamps:
  "stamps offline [(0, Search ''q''), (double (508 / 1000), Search ''q'')]
     (fresh_client ''A'') (world_at (double (255592 / 1000))) =
   [8992844030928749 / 35184372088832, 2257007100754395 / 8796093022208]"
proof -
  have t0: "double (255592 / 1000) = 8992844030928749 / 35184372088832"
    by (simp add: double_eval)
  have d: "double (508 / 1000) = 571957152676053 / 1125899906842624"
    by (simp add: double_eval)
  have p0: "pause 0 (world_at (8992844030928749 / 35184372088832)) =
      world_at (8992844030928749 / 35184372088832)"
    by (simp add: pause_def world_at_def double_eval)
  have s1: "perform offline (Search ''q'') (fresh_client ''A'') (world_at (8992844030928749 / 35184372088832)) =
      ((fresh_client ''A'')\<lparr>last_request_time := 8992844030928749 / 35184372088832\<rparr>,
       \<lparr>clock = 8992844030928749 / 35184372088832, requests = 1, trace = [Get ''A'']\<rparr>)"
    by (simp add: search_def rate_limit_def http_get_def sleep_def fresh_client_def world_at_def
          offline_def RATE_LIMIT_DELAY_def double_eval)
  have p1: "pause (571957152676053 / 1125899906842624)
       \<lparr>clock = 8992844030928749 / 35184372088832, requests = 1, trace = [Get ''A'']\<rparr> =
      \<lparr>clock = 2252679422987469 / 8796093022208, requests = 1, trace = [Get ''A'']\<rparr>"
    by (simp add: pause_def double_eval)
  have s2: "last_request_time (fst (perform offline (Search ''q'')
        ((fresh_client ''A'')\<lparr>last_request_time := 8992844030928749 / 35184372088832\<rparr>)
        \<lparr>clock = 2252679422987469 / 8796093022208, requests = 1, trace = [Get ''A'']\<rparr>)) =
      2257007100754395 / 8796093022208"
    by (simp add: search_def rate_limit_def http_get_def sleep_def fresh_client_def
          offline_def RATE_LIMIT_DELAY_def double_eval)
  show ?thesis
    by (simp only: t0 d stamps_Cons stamps.simps p0 s1 p1 s2 fst_conv snd_conv) simp
qed

lemma two_clients_example:
  "trace (snd (perform offline (Search ''q'') (fresh_client ''B'')
           (snd (perform offline (Search ''q'') (fresh_client ''A'') (world_at 100))))) =
     [Get ''A'', Get ''B'']"
  by (simp add: search_def rate_limit_def http_get_def sleep_def fresh_client_def world_at_def
        offline_def RATE_LIMIT_DELAY_def double_eval)

lemma one_client_example:
  "trace (snd (perform offline (Search ''q'')
           (fst (perform offline (Search ''q'') (fresh_client ''A'') (world_at 100)))
           (snd (perform offline (Search ''q'') (fresh_client ''A'') (world_at 100))))) =
     [Get ''A'', Slept 1, Get ''A'']"
  by (simp add: search_def rate_limit_def http_get_def sleep_def fresh_client_def world_at_def
        offline_def RATE_LIMIT_DELAY_def double_eval)

lemma get_document_no_endpoint:
  "map_of (endpoints c) ''item'' = None \<Longrightarrow>
     get_document e doc_id c w = (Inl (KeyError ''item''), rate_limit c w)"
  by (simp add: get_document_def split_beta)

text \<open>
  Claim C8, counterexample. The clock reads the float 255.592 when a first search passes the
  limiter without sleeping; the caller lets 0.508 seconds pass and searches again on the
  same client. The limiter computes the time since the last request, sleeps for the
  remainder, and the second search passes it at a time that is less than
  \<open>RATE_LIMIT_DELAY\<close> after the first: the three roundings leave the two times
  \<open>1 - 1 / 2 ^ 45\<close> seconds apart.
\<close>

theorem rate_limit_float_gap:
  "stamps offline [(0, Search ''q''), (double (508 / 1000), Search ''q'')]
     (fresh_client ''A'') (world_at (double (255592 / 1000))) =
     [8992844030928749 / 35184372088832, 2257007100754395 / 8796093022208] \<and>
   (2257007100754395 / 8796093022208 :: real) - 8992844030928749 / 35184372088832 =
     1 - 1 / 2 ^ 45 \<and>
   \<not> (stamps offline [(0, Search ''q''), (double (508 / 1000), Search ''q'')]
         (fresh_client ''A'') (world_at (double (255592 / 1000))) ! 0 + RATE_LIMIT_DELAY \<le>
       stamps offline [(0, Search ''q''), (double (508 / 1000), Search ''q'')]
         (fresh_client ''A'') (world_at (double (255592 / 1000))) ! 1)"
  by (simp only: float_stamps) (simp add: RATE_LIMIT_DELAY_def)

text \<open>
  Claim C8, amended. Take any sequence of calls (search, get_document, download_document_image)
  on one client, the clock advancing by any amount before each call. When the float
  operations of the limiter round nothing along the run, the times at which two
  consecutive calls pass the limiter are at least \<open>RATE_LIMIT_DELAY\<close> apart, and each is
  at least \<open>RATE_LIMIT_DELAY\<close> after the client's earlier \<open>last_request_time\<close>. Every call
  leaves one such time, and leaves the client as \<open>_rate_limit\<close> alone would: the time is
  the later of the clock and the client's last time plus the delay, when nothing is
  rounded. A \<open>get_document\<close> on a client without an \<open>item\<close> endpoint passes
  the limiter and then raises \<open>KeyError\<close>. The limiter reads and writes its own client
  only: storing a client back leaves the other clients of the agent as they were, and in
  the offline environment a search on a second client follows a search on a first one
  without a sleep, where a second search on the first client sleeps for the whole delay.
\<close>

theorem rate_limit_separation:
  "(exact_run e calls c w \<longrightarrow>
      (\<forall>i. Suc i < length (stamps e calls c w) \<longrightarrow>
         stamps e calls c w ! i + RATE_LIMIT_DELAY \<le> stamps e calls c w ! Suc i) \<and>
      (\<forall>t \<in> set (stamps e calls c w). last_request_time c + RATE_LIMIT_DELAY \<le> t)) \<and>
   length (stamps e calls c w) = length calls \<and>
   fst (perform e rq c w) = fst (rate_limit c w) \<and>
   (exact_limit c w \<longrightarrow>
      last_request_time (fst (perform e rq c w)) =
        max (clock w) (last_request_time c + RATE_LIMIT_DELAY)) \<and>
   (map_of (endpoints c) ''item'' = None \<longrightarrow>
      get_document e doc_id c w = (Inl (KeyError ''item''), rate_limit c w)) \<and>
   (j \<noteq> i \<longrightarrow> api_clients (store_client i c ag) ! j = api_clients ag ! j) \<and>
   trace (snd (perform offline (Search ''q'') (fresh_client ''B'')
           (snd (perform offline (Search ''q'') (fresh_client ''A'') (world_at 100))))) =
     [Get ''A'', Get ''B''] \<and>
   trace (snd (perform offline (Search ''q'')
           (fst (perform offline (Search ''q'') (fresh_client ''A'') (world_at 100)))
           (snd (perform offline (Search ''q'') (fresh_client ''A'') (world_at 100))))) =
     [Get ''A'', Slept 1, Get ''A'']"
  using stamps_separated [of e calls c w] stamps_lower [of e calls c w]
    stamps_length [of e calls c w] perform_stamp [of c w e rq] perform_client [of e rq c w]
    get_document_no_endpoint [of c e doc_id w]
    store_client_other [of j i c ag] two_clients_example one_client_example
  by blast

lemma toronto_stamps:
  "stamps offline [(0, Search ''q''), (1 / 4, Get_document ''7''), (3, Download ''u'' ''p'')]
     toronto (world_at 100) = [100, 101, 104] \<and>
   exact_run offline [(0, Search ''q''), (1 / 4, Get_document ''7''), (3, Download ''u'' ''p'')]
     toronto (world_at 100)"
proof -
  have p0: "pause 0 (world_at 100) = world_at 100"
    by (simp add: pause_def world_at_def double_eval)
  have x1: "exact_limit toronto (world_at 100)"
    by (simp add: exact_limit_def toronto_def world_at_def RATE_LIMIT_DELAY_def double_eval)
  have s1: "perform offline (Search ''q'') toronto (world_at 100) =
          (toronto\<lparr>last_request_time := 100\<rparr>,
           \<lparr>clock = 100, requests = 1, trace = [Get (name toronto)]\<rparr>)"
    by (simp add: search_def rate_limit_def http_get_def sleep_def toronto_def world_at_def
          offline_def RATE_LIMIT_DELAY_def double_eval)
  have p1: "pause (1 / 4) \<lparr>clock = 100, requests = 1, trace = [Get (name toronto)]\<rparr> =
      \<lparr>clock = 401 / 4, requests = 1, trace = [Get (name toronto)]\<rparr>"
    by (simp add: pause_def double_eval)
  have x2: "exact_limit (toronto\<lparr>last_request_time := 100\<rparr>)
      \<lparr>clock = 401 / 4, requests = 1, trace = [Get (name toronto)]\<rparr>"
    by (simp add: exact_limit_def RATE_LIMIT_DELAY_def double_eval)
  have s2: "perform offline (Get_document ''7'') (toronto\<lparr>last_request_time := 100\<rparr>)
            \<lparr>clock = 401 / 4, requests = 1, trace = [Get (name toronto)]\<rparr> =
          (toronto\<lparr>last_request_time := 101\<rparr>,
           \<lparr>clock = 101, requests = 1, trace = [Get (name toronto), Slept (3 / 4)]\<rparr>)"
    by (simp add: get_document_def rate_limit_def sleep_def toronto_def
          RATE_LIMIT_DELAY_def double_eval)
  have p2: "pause 3 \<lparr>clock = 101, requests = 1, trace = [Get (name toronto), Slept (3 / 4)]\<rparr> =
      \<lparr>clock = 104, requests = 1, trace = [Get (name toronto), Slept (3 / 4)]\<rparr>"
    by (simp add: pause_def double_eval)
  have x3: "exact_limit (toronto\<lparr>last_request_time := 101\<rparr>)
      \<lparr>clock = 104, requests = 1, trace = [Get (name toronto), Slept (3 / 4)]\<rparr>"
    by (simp add: exact_limit_def RATE_LIMIT_DELAY_def double_eval)
  have s3: "last_request_time (fst (perform offline (Download ''u'' ''p'')
            (toronto\<lparr>last_request_time := 101\<rparr>)
            \<lparr>clock = 104, requests = 1, trace = [Get (name toronto), Slept (3 / 4)]\<rparr>)) = 104"
    using x3 by (simp only: perform_stamp) (simp add: RATE_LIMIT_DELAY_def)
  have a: "stamps offline [(0, Search ''q''), (1 / 4, Get_document ''7''), (3, Download ''u'' ''p'')]
     toronto (world_at 100) = [100, 101, 104]"
    by (simp only: stamps_Cons stamps.simps p0 s1 p1 s2 p2 s3 fst_conv snd_conv) simp
  have b: "exact_run offline [(0, Search ''q''), (1 / 4, Get_document ''7''), (3, Download ''u'' ''p'')]
     toronto (world_at 100)"
    by (simp only: exact_run_Cons exact_run.simps p0 s1 p1 s2 p2 x1 x2 x3 fst_conv snd_conv)
  from a b show ?thesis by simp
qed

theorem rate_limit_separation_witness:
  "exact_run offline [(0, Search ''q''), (1 / 4, Get_document ''7''), (3, Download ''u'' ''p'')]
     toronto (world_at 100) \<and>
   stamps offline [(0, Search ''q''), (1 / 4, Get_document ''7''), (3, Download ''u'' ''p'')]
     toronto (world_at 100) = [100, 101, 104] \<and>
   stamps offline [(0, Search ''q''), (1 / 4, Get_document ''7''), (3, Download ''u'' ''p'')]
     toronto (world_at 100) ! 0 + RATE_LIMIT_DELAY \<le>
   stamps offline [(0, Search ''q''), (1 / 4, Get_document ''7''), (3, Download ''u'' ''p'')]
     toronto (world_at 100) ! Suc 0 \<and>
   exact_limit toronto (world_at 100) \<and>
   last_request_time (fst (perform offline (Search ''q'') toronto (world_at 100))) = 100 \<and>
   map_of (endpoints toronto) ''item'' = None \<and>
   fst (get_document offline ''7'' toronto (world_at 100)) = Inl (KeyError ''item'') \<and>
   (1::nat) \<noteq> 0 \<and>
   api_clients (store_client 0 toronto (agent_init True)) ! 1 =
     api_clients (agent_init True) ! 1"
proof -
  let ?calls = "[(0, Search ''q''), (1 / 4, Get_document ''7''), (3, Download ''u'' ''p'')]"
  note t = rate_limit_separation [of offline ?calls toronto "world_at 100"
      "Search ''q''" "''7''" 1 0 "agent_init True"]
  have l: "Suc 0 < length (stamps offline ?calls toronto (world_at 100))"
    by (simp only: toronto_stamps) simp
  have x: "exact_limit toronto (world_at 100)"
    by (simp add: exact_limit_def toronto_def world_at_def RATE_LIMIT_DELAY_def double_eval)
  have m: "map_of (endpoints toronto) ''item'' = None"
    by (simp add: toronto_def)
  from t l toronto_stamps
  have a: "stamps offline ?calls toronto (world_at 100) ! 0 + RATE_LIMIT_DELAY \<le>
      stamps offline ?calls toronto (world_at 100) ! Suc 0"
    by blast
  from t x have b: "last_request_time (fst (perform offline (Search ''q'') toronto (world_at 100))) =
      max (clock (world_at 100)) (last_request_time toronto + RATE_LIMIT_DELAY)"
    by blast
  then have b': "last_request_time (fst (perform offline (Search ''q'') toronto (world_at 100))) = 100"
    by (simp add: toronto_def world_at_def RATE_LIMIT_DELAY_def)
  from t m have c: "fst (get_document offline ''7'' toronto (world_at 100)) = Inl (KeyError ''item'')"
    by simp
  from t have d: "api_clients (store_client 0 toronto (agent_init True)) ! 1 =
     api_clients (agent_init True) ! 1"
    by simp
  show ?thesis using a b' c d x m toronto_stamps by simp
qed


section \<open>Status of execute_full_search\<close>




















section \<open>Records found by the search stage\<close>














section \<open>The outcomes of execute_full_search on sample surroundings\<close>















end
